theory Spec2Isabelle
  imports Main "HOL-Library.Sublist" "HOL-Library.AList"
begin

section \<open>The file system, the process environment and exceptions\<close>

text \<open>
  \<^verbatim>\<open>backup_master.py\<close> is a Python 2 script whose whole work is calls to \<^verbatim>\<open>os\<close>,
  \<^verbatim>\<open>shutil\<close>, \<^verbatim>\<open>tempfile\<close>, \<^verbatim>\<open>zipfile\<close> and \<^verbatim>\<open>subprocess\<close>. The model threads a
  \<open>world\<close> through these calls and returns a raised exception as \<open>Inl\<close>.

  A path is the list of its components: \<^verbatim>\<open>/etc/pki/etcd/\<close> is \<open>[''etc'', ''pki'', ''etcd'']\<close> and
  \<^verbatim>\<open>os.path.join(d, n)\<close> is \<open>d @ [n]\<close>. The file system is an association list from
  paths to nodes; the root \<open>[]\<close> is always a directory. Symbolic links, permissions and
  owners are not modelled. The content of a file is its bytes, or, for a file written
  by \<^verbatim>\<open>zipfile\<close>, the list of its members: compression is not modelled.
\<close>

type_synonym path = "string list"

datatype content = Bytes string | ZipArchive "(string \<times> content) list"

datatype node = File content | Dir

type_synonym fs = "(path \<times> node) list"

datatype exn =
    CalledProcessError "string list" nat
  | OSError
  | IOError
  | KeyError
  | BadZipfile
  | ShutilError
  | BackupError string
  | Exception string
  | SystemExit nat

text \<open>
  What the script reads from its surroundings and cannot compute: the exit status of
  each external command, the bytes \<^verbatim>\<open>pg_dump\<close> prints, the user and group databases, the
  clock, the directory of \<^verbatim>\<open>tempfile.gettempdir()\<close>, the effective user id and the outcome
  of the application's node clean-up (\<^verbatim>\<open>purge_nodes\<close> imports \<^verbatim>\<open>kubedock\<close>, which is not
  part of this file).
\<close>

record sys =
  exit_status :: "string list \<Rightarrow> nat"
  pg_dump_stdout :: string
  passwd :: "string \<Rightarrow> nat option"
  groups :: "string \<Rightarrow> nat option"
  today :: string
  tempdir :: path
  getuid :: nat
  purge_outcome :: "exn option"

text \<open>
  \<open>seen\<close> holds every state the file system went through, newest first: each system
  call that changes the file system adds the state it leaves. \<open>names\<close> are the random
  strings \<^verbatim>\<open>tempfile\<close> will draw. \<open>log\<close> is what the logger's stream handler printed,
  \<open>handlers\<close> the files of its file handlers, \<open>calls\<close> the commands run with
  \<^verbatim>\<open>subprocess.check_call\<close> and \<open>spawned\<close> the shell commands started with
  \<^verbatim>\<open>subprocess.Popen\<close>.
\<close>

record world =
  files :: fs
  seen :: "fs list"
  names :: "string list"
  log :: "(nat \<times> string) list"
  level :: nat
  handlers :: "path list"
  calls :: "string list list"
  spawned :: "string list"
  sys :: sys

type_synonym 'a io = "world \<Rightarrow> (exn + 'a) \<times> world"

definition ret :: "'a \<Rightarrow> 'a io" where
  "ret x w = (Inr x, w)"

definition throw :: "exn \<Rightarrow> 'a io" where
  "throw e w = (Inl e, w)"

definition seq :: "'a io \<Rightarrow> ('a \<Rightarrow> 'b io) \<Rightarrow> 'b io" where
  "seq m f w = (case m w of (Inl e, w') \<Rightarrow> (Inl e, w') | (Inr x, w') \<Rightarrow> f x w')"

text \<open>\<^verbatim>\<open>try: m finally: h\<close>. An exception of \<open>h\<close> replaces the outcome of \<open>m\<close>.\<close>

definition try_finally :: "'a io \<Rightarrow> unit io \<Rightarrow> 'a io" where
  "try_finally m h w =
     (case m w of (r, w') \<Rightarrow>
        (case h w' of (Inl e, w'') \<Rightarrow> (Inl e, w'') | (Inr u, w'') \<Rightarrow> (r, w'')))"

fun for_each :: "('a \<Rightarrow> unit io) \<Rightarrow> 'a list \<Rightarrow> unit io" where
  "for_each f [] = ret ()"
| "for_each f (x # xs) = seq (f x) (\<lambda>u. for_each f xs)"

definition commit :: "fs \<Rightarrow> unit io" where
  "commit t w = (Inr (), w\<lparr>files := t, seen := t # seen w\<rparr>)"

subsection \<open>\<^verbatim>\<open>os.path\<close>\<close>

definition node_at :: "fs \<Rightarrow> path \<Rightarrow> node option" where
  "node_at t p = (if p = [] then Some Dir else map_of t p)"

definition exists_path :: "fs \<Rightarrow> path \<Rightarrow> bool" where
  "exists_path t p = (node_at t p \<noteq> None)"

definition isdir :: "fs \<Rightarrow> path \<Rightarrow> bool" where
  "isdir t p = (node_at t p = Some Dir)"

definition isfile :: "fs \<Rightarrow> path \<Rightarrow> bool" where
  "isfile t p = (case node_at t p of Some (File c) \<Rightarrow> True | _ \<Rightarrow> False)"

definition path_str :: "path \<Rightarrow> string" where
  "path_str p = (if p = [] then ''/'' else concat (map (\<lambda>c. CHR ''/'' # c) p))"

subsection \<open>\<^verbatim>\<open>os\<close>\<close>

text \<open>\<^verbatim>\<open>os.open(p, os.O_CREAT | os.O_EXCL)\<close>: create the file or fail.\<close>

definition os_open_excl :: "path \<Rightarrow> unit io" where
  "os_open_excl p w =
     (if exists_path (files w) p \<or> \<not> isdir (files w) (butlast p) then throw OSError w
      else commit (AList.update p (File (Bytes [])) (files w)) w)"

text \<open>\<^verbatim>\<open>os.unlink\<close>, \<^verbatim>\<open>os.remove\<close>: only a file can be removed.\<close>

definition os_unlink :: "path \<Rightarrow> unit io" where
  "os_unlink p w =
     (if isfile (files w) p then commit (AList.delete p (files w)) w else throw OSError w)"

definition os_listdir :: "path \<Rightarrow> string list io" where
  "os_listdir d w =
     (if isdir (files w) d
      then ret (map (last \<circ> fst) (filter (\<lambda>(p, n). p \<noteq> [] \<and> butlast p = d) (files w))) w
      else throw OSError w)"

definition os_mkdir :: "path \<Rightarrow> unit io" where
  "os_mkdir p w =
     (if exists_path (files w) p \<or> \<not> isdir (files w) (butlast p) then throw OSError w
      else commit (AList.update p Dir (files w)) w)"

text \<open>
  \<^verbatim>\<open>os.makedirs\<close>: the missing ancestors are made from the top down, then the leaf, which
  must not exist.
\<close>

fun makedirs_from :: "path \<Rightarrow> string list \<Rightarrow> unit io" where
  "makedirs_from d [] = ret ()"
| "makedirs_from d [n] = os_mkdir (d @ [n])"
| "makedirs_from d (n # ns) =
     (\<lambda>w. if isdir (files w) (d @ [n]) then makedirs_from (d @ [n]) ns w
          else seq (os_mkdir (d @ [n])) (\<lambda>u. makedirs_from (d @ [n]) ns) w)"

definition os_makedirs :: "path \<Rightarrow> unit io" where
  "os_makedirs p = (if p = [] then throw OSError else makedirs_from [] p)"

text \<open>
  \<^verbatim>\<open>os.rename(src, dst)\<close>: one atomic step. A file replaces a file, a directory replaces
  an empty directory; everything below \<open>src\<close> moves with it.
\<close>

definition has_children :: "fs \<Rightarrow> path \<Rightarrow> bool" where
  "has_children t d = list_ex (\<lambda>(p, n). strict_prefix d p) t"

definition moved :: "path \<Rightarrow> path \<Rightarrow> fs \<Rightarrow> fs" where
  "moved src dst t =
     map (\<lambda>(p, n). (if prefix src p then dst @ drop (length src) p else p, n))
       (filter (\<lambda>(p, n). p \<noteq> dst) t)"

definition os_rename :: "path \<Rightarrow> path \<Rightarrow> unit io" where
  "os_rename src dst w =
     (let t = files w in
      if src = [] \<or> dst = [] \<or> \<not> exists_path t src \<or> \<not> isdir t (butlast dst) then throw OSError w
      else if src = dst then ret () w
      else if strict_prefix src dst then throw OSError w
      else if isdir t src \<and> isfile t dst then throw OSError w
      else if isfile t src \<and> isdir t dst then throw OSError w
      else if isdir t dst \<and> has_children t dst then throw OSError w
      else commit (moved src dst t) w)"

subsection \<open>Files\<close>

text \<open>
  \<^verbatim>\<open>open(p, 'w')\<close>, writing \<open>c\<close>, \<^verbatim>\<open>close()\<close>. Opening creates or truncates the file, so
  between the two system calls the file is there and empty; the states while the bytes
  arrive one buffer after the other are represented by that one.
\<close>

definition open_w :: "path \<Rightarrow> unit io" where
  "open_w p w =
     (if isdir (files w) p \<or> \<not> isdir (files w) (butlast p) then throw IOError w
      else commit (AList.update p (File (Bytes [])) (files w)) w)"

definition fill :: "path \<Rightarrow> content \<Rightarrow> unit io" where
  "fill p c w = commit (AList.update p (File c) (files w)) w"

definition write_file :: "path \<Rightarrow> content \<Rightarrow> unit io" where
  "write_file p c = seq (open_w p) (\<lambda>u. fill p c)"

text \<open>\<^verbatim>\<open>open(p, 'a').close()\<close>: the file is created if it is not there, and not truncated.\<close>

definition touch :: "path \<Rightarrow> unit io" where
  "touch p w =
     (if isdir (files w) p \<or> \<not> isdir (files w) (butlast p) then throw IOError w
      else if exists_path (files w) p then ret () w
      else commit (AList.update p (File (Bytes [])) (files w)) w)"

definition read_file :: "path \<Rightarrow> content io" where
  "read_file p w =
     (case node_at (files w) p of Some (File c) \<Rightarrow> ret c w | _ \<Rightarrow> throw IOError w)"

subsection \<open>\<^verbatim>\<open>tempfile\<close>\<close>

text \<open>
  \<^verbatim>\<open>mkstemp\<close> and \<^verbatim>\<open>mkdtemp\<close> draw random names until one is free in \<open>d\<close>, and give up
  with \<^verbatim>\<open>IOError\<close> when the supply (\<^verbatim>\<open>TMP_MAX\<close> draws) is used up.
\<close>

fun draw_name :: "fs \<Rightarrow> path \<Rightarrow> string \<Rightarrow> string \<Rightarrow> string list \<Rightarrow> (string \<times> string list) option" where
  "draw_name t d pre suf [] = None"
| "draw_name t d pre suf (r # rs) =
     (if exists_path t (d @ [pre @ r @ suf]) then draw_name t d pre suf rs
      else Some (pre @ r @ suf, rs))"

definition mktemp_node :: "node \<Rightarrow> string \<Rightarrow> path \<Rightarrow> string \<Rightarrow> path io" where
  "mktemp_node n pre d suf w =
     (if \<not> isdir (files w) d then throw OSError (w\<lparr>names := tl (names w)\<rparr>)
      else case draw_name (files w) d pre suf (names w) of
          None \<Rightarrow> throw IOError (w\<lparr>names := []\<rparr>)
        | Some (nm, rest) \<Rightarrow>
            seq (commit (AList.update (d @ [nm]) n (files w))) (\<lambda>u. ret (d @ [nm]))
              (w\<lparr>names := rest\<rparr>))"

definition mkstemp :: "string \<Rightarrow> path \<Rightarrow> string \<Rightarrow> path io" where
  "mkstemp = mktemp_node (File (Bytes []))"

definition mkdtemp :: "string \<Rightarrow> path \<Rightarrow> string \<Rightarrow> path io" where
  "mkdtemp = mktemp_node Dir"

definition gettempdir :: "path io" where
  "gettempdir w = ret (tempdir (sys w)) w"

subsection \<open>\<^verbatim>\<open>shutil\<close>\<close>

text \<open>
  \<^verbatim>\<open>shutil.copy(src, dst)\<close> writes to \<open>dst\<close>, or into it when it is a directory. The
  target is opened for writing and filled: it is not written under another name first.
\<close>

definition shutil_copy :: "path \<Rightarrow> path \<Rightarrow> unit io" where
  "shutil_copy src dst w =
     (let target = (if isdir (files w) dst then dst @ [last src] else dst) in
      if src = target then throw ShutilError w
      else seq (read_file src) (\<lambda>c. write_file target c) w)"

text \<open>
  \<^verbatim>\<open>shutil.copy(src, dst)\<close> where \<open>dst\<close> is written with a trailing slash, as
  \<^verbatim>\<open>'/etc/pki/etcd/'\<close> and \<^verbatim>\<open>'/etc/nginx/conf.d/'\<close> are: when \<open>dst\<close> is a directory the
  copy goes into it; when it is not, the source is opened and then \<^verbatim>\<open>open(dst, 'wb')\<close>
  fails on the name with the slash, so nothing is written.
\<close>

definition shutil_copy_slash :: "path \<Rightarrow> path \<Rightarrow> unit io" where
  "shutil_copy_slash src dst w =
     (if isdir (files w) dst then shutil_copy src dst w
      else seq (read_file src) (\<lambda>c. throw IOError) w)"

definition shutil_rmtree :: "path \<Rightarrow> unit io" where
  "shutil_rmtree p w =
     (if p = [] \<or> \<not> isdir (files w) p then throw OSError w
      else commit (filter (\<lambda>(q, n). \<not> prefix p q) (files w)) w)"

text \<open>
  What \<^verbatim>\<open>os.walk(d)\<close> reaches below \<open>d\<close>: the entries all of whose ancestors down from
  \<open>d\<close> are directories. Parents come before their children; the order among siblings is
  that of the association list (\<^verbatim>\<open>os.listdir\<close> promises none).
\<close>

definition reachable :: "fs \<Rightarrow> path \<Rightarrow> path \<Rightarrow> bool" where
  "reachable t d p = list_all (\<lambda>k. isdir t (take k p)) [length d ..< length p]"

definition descendants :: "fs \<Rightarrow> path \<Rightarrow> (path \<times> node) list" where
  "descendants t d =
     sort_key (length \<circ> fst) (filter (\<lambda>(p, n). strict_prefix d p \<and> reachable t d p) t)"

text \<open>
  \<^verbatim>\<open>shutil.copytree(src, dst)\<close>: \<open>dst\<close> must not exist. A copy that fails is noted and the
  others go on; \<^verbatim>\<open>shutil.Error\<close> is raised at the end if any was noted.
\<close>

definition noting :: "unit io \<Rightarrow> bool io" where
  "noting m w = (case m w of (Inl e, w') \<Rightarrow> (Inr True, w') | (Inr u, w') \<Rightarrow> (Inr False, w'))"

fun copy_entries :: "path \<Rightarrow> path \<Rightarrow> (path \<times> node) list \<Rightarrow> bool \<Rightarrow> bool io" where
  "copy_entries src dst [] failed = ret failed"
| "copy_entries src dst ((p, n) # es) failed =
     seq (noting (case n of Dir \<Rightarrow> os_mkdir (dst @ drop (length src) p)
                          | File c \<Rightarrow> write_file (dst @ drop (length src) p) c))
       (\<lambda>f. copy_entries src dst es (failed \<or> f))"

definition shutil_copytree :: "path \<Rightarrow> path \<Rightarrow> unit io" where
  "shutil_copytree src dst w =
     (if \<not> isdir (files w) src then throw OSError w
      else seq (os_makedirs dst)
             (\<lambda>u. seq (copy_entries src dst (descendants (files w) src) False)
                (\<lambda>failed. if failed then throw ShutilError else ret ())) w)"

subsection \<open>\<^verbatim>\<open>zipfile\<close>\<close>

type_synonym zip = "(string \<times> content) list"

fun split_on :: "char \<Rightarrow> string \<Rightarrow> string list" where
  "split_on s [] = [[]]"
| "split_on s (c # cs) =
     (if c = s then [] # split_on s cs
      else (case split_on s cs of [] \<Rightarrow> [[c]] | x # xs \<Rightarrow> (c # x) # xs))"

fun join_with :: "char \<Rightarrow> string list \<Rightarrow> string" where
  "join_with s [] = []"
| "join_with s [x] = x"
| "join_with s (x # xs) = x @ s # join_with s xs"

definition namelist :: "zip \<Rightarrow> string list" where
  "namelist z = map fst z"

text \<open>\<^verbatim>\<open>ZipFile.open(name)\<close>: of two members of one name the later one is found.\<close>

definition zip_open :: "zip \<Rightarrow> string \<Rightarrow> content io" where
  "zip_open z name = (case map_of (rev z) name of None \<Rightarrow> throw KeyError | Some c \<Rightarrow> ret c)"

text \<open>\<^verbatim>\<open>ZipFile(p, 'r')\<close>.\<close>

definition zip_read :: "path \<Rightarrow> zip io" where
  "zip_read p w =
     (case node_at (files w) p of
        Some (File (ZipArchive z)) \<Rightarrow> ret z w
      | Some (File (Bytes b)) \<Rightarrow> throw BadZipfile w
      | _ \<Rightarrow> throw IOError w)"

text \<open>
  \<^verbatim>\<open>with ZipFile(p, 'w', ZIP_DEFLATED) as zipf: members(zipf)\<close>: the file is created or
  truncated, then the members are collected from the file system as it is then.
\<close>

definition zip_write :: "path \<Rightarrow> (fs \<Rightarrow> zip) \<Rightarrow> unit io" where
  "zip_write p members w =
     (if isdir (files w) p \<or> \<not> isdir (files w) (butlast p) then throw IOError w
      else seq (commit (AList.update p (File (Bytes [])) (files w)))
             (\<lambda>u w'. commit (AList.update p (File (ZipArchive (members (files w')))) (files w')) w') w)"

text \<open>
  \<^verbatim>\<open>ZipFile.extract\<close> of one member below \<open>d\<close>: empty, \<^verbatim>\<open>.\<close> and \<^verbatim>\<open>..\<close> components of
  the member name are dropped, missing directories are made, and a name that ends in a
  slash is a directory.
\<close>

definition zip_extract :: "path \<Rightarrow> zip \<Rightarrow> string \<Rightarrow> unit io" where
  "zip_extract d z name w =
     (let target = d @ filter (\<lambda>x. x \<notin> set [[], ''.'', ''..'']) (split_on CHR ''/'' name) in
      seq (if exists_path (files w) (butlast target) then ret () else os_makedirs (butlast target))
        (\<lambda>u. if name \<noteq> [] \<and> last name = CHR ''/''
             then (\<lambda>w'. if isdir (files w') target then ret () w' else os_mkdir target w')
             else seq (zip_open z name) (write_file target)) w)"

definition extractall :: "zip \<Rightarrow> path \<Rightarrow> string list \<Rightarrow> unit io" where
  "extractall z d members = for_each (zip_extract d z) members"

subsection \<open>\<^verbatim>\<open>subprocess\<close>, \<^verbatim>\<open>pwd\<close>, \<^verbatim>\<open>grp\<close> and \<^verbatim>\<open>logging\<close>\<close>

definition check_call :: "string list \<Rightarrow> unit io" where
  "check_call cmd w =
     (let w' = w\<lparr>calls := calls w @ [cmd]\<rparr> in
      if exit_status (sys w) cmd = 0 then ret () w'
      else throw (CalledProcessError cmd (exit_status (sys w) cmd)) w')"

definition Popen_shell :: "string \<Rightarrow> unit io" where
  "Popen_shell cmd w = ret () (w\<lparr>spawned := spawned w @ [cmd]\<rparr>)"

definition getpwnam :: "string \<Rightarrow> nat io" where
  "getpwnam u w = (case passwd (sys w) u of None \<Rightarrow> throw KeyError w | Some uid \<Rightarrow> ret uid w)"

definition getgrnam :: "string \<Rightarrow> nat io" where
  "getgrnam g w = (case groups (sys w) g of None \<Rightarrow> throw KeyError w | Some gid \<Rightarrow> ret gid w)"

definition DEBUG :: nat where "DEBUG = 10"
definition INFO :: nat where "INFO = 20"
definition WARN :: nat where "WARN = 30"
definition ERROR :: nat where "ERROR = 40"

text \<open>
  A file handler appends the message and a newline to its file; a handler whose file
  is no longer a plain file at its path writes nowhere the file system shows.
\<close>

definition emit_to :: "string \<Rightarrow> path \<Rightarrow> unit io" where
  "emit_to msg h w =
     (case node_at (files w) h of
        Some (File (Bytes b)) \<Rightarrow> fill h (Bytes (b @ msg @ [CHR 0x0A])) w
      | _ \<Rightarrow> ret () w)"

definition logger_log :: "nat \<Rightarrow> string \<Rightarrow> unit io" where
  "logger_log lvl msg w =
     (if lvl < level w then ret () w
      else for_each (emit_to msg) (handlers w) (w\<lparr>log := log w @ [(lvl, msg)]\<rparr>))"

definition logger_info :: "string \<Rightarrow> unit io" where
  "logger_info = logger_log INFO"

definition logger_error :: "string \<Rightarrow> unit io" where
  "logger_error = logger_log ERROR"

text \<open>\<^verbatim>\<open>logger.addHandler(logging.FileHandler(p))\<close>: the file is opened for appending.\<close>

definition addFileHandler :: "path \<Rightarrow> unit io" where
  "addFileHandler p = seq (touch p) (\<lambda>u w. ret () (w\<lparr>handlers := handlers w @ [p]\<rparr>))"

subsection \<open>Formatting\<close>

fun str_nat :: "nat \<Rightarrow> string" where
  "str_nat n =
     (if n < 10 then [char_of (48 + n)] else str_nat (n div 10) @ [char_of (48 + n mod 10)])"

definition quoted :: "string \<Rightarrow> string" where
  "quoted x = CHR 0x27 # x @ [CHR 0x27]"

fun join_str :: "string \<Rightarrow> string list \<Rightarrow> string" where
  "join_str s [] = []"
| "join_str s [x] = x"
| "join_str s (x # xs) = x @ s @ join_str s xs"

definition repr_list :: "string list \<Rightarrow> string" where
  "repr_list xs = ''['' @ join_str '', '' (map quoted xs) @ '']''"

definition str_CalledProcessError :: "string list \<Rightarrow> nat \<Rightarrow> string" where
  "str_CalledProcessError cmd rc =
     ''Command '' @ quoted (repr_list cmd) @ '' returned non-zero exit status '' @ str_nat rc"

definition str_class :: "string \<Rightarrow> string" where
  "str_class c = ''<class '' @ quoted (''__main__.'' @ c) @ ''>''"

definition str_result :: "path option \<Rightarrow> string" where
  "str_result r = (case r of None \<Rightarrow> ''None'' | Some p \<Rightarrow> path_str p)"

section \<open>Constants and external tools\<close>

definition DATABASES :: "string list" where
  "DATABASES = [''kuberdock'']"

definition NICENESS :: nat where
  "NICENESS = 19"

definition ETCD_DATA :: path where
  "ETCD_DATA = [''var'', ''lib'', ''etcd'', ''default.etcd'', ''member'']"

definition KNOWN_TOKENS :: path where
  "KNOWN_TOKENS = [''etc'', ''kubernetes'', ''known_tokens.csv'']"

definition NODE_CONFIGFILE :: path where
  "NODE_CONFIGFILE = [''etc'', ''kubernetes'', ''configfile_for_nodes'']"

definition SSH_KEY :: path where
  "SSH_KEY = [''var'', ''lib'', ''nginx'', ''.ssh'', ''id_rsa'']"

definition SSH_KEY_pub :: path where
  "SSH_KEY_pub = butlast SSH_KEY @ [last SSH_KEY @ ''.pub'']"

definition ETCD_PKI :: path where
  "ETCD_PKI = [''etc'', ''pki'', ''etcd'']"

definition LICENSE :: path where
  "LICENSE = [''var'', ''opt'', ''kuberdock'', ''.license'']"

definition nice :: "string list \<Rightarrow> nat \<Rightarrow> string list" where
  "nice cmd n = [''nice'', ''-n'', str_nat n] @ cmd"

definition sudo :: "string list \<Rightarrow> string \<Rightarrow> string list" where
  "sudo cmd as_user = [''sudo'', ''-u'', as_user] @ cmd"

text \<open>
  \<^verbatim>\<open>pg_dump\<close> opens \<open>dst\<close> for writing and runs the tool with its standard output on
  that file. Of what the external tools do, only this output is modelled.
\<close>

definition pg_dump :: "string \<Rightarrow> path \<Rightarrow> unit io" where
  "pg_dump src dst =
     seq (open_w dst)
       (\<lambda>u. seq (\<lambda>w. fill dst (Bytes (pg_dump_stdout (sys w))) w)
          (\<lambda>u. check_call
             (sudo (nice [''pg_dump'', ''-C'', ''-Fc'', ''-U'', ''postgres'', src] NICENESS)
                ''postgres'')))"

definition pg_restore :: "path \<Rightarrow> unit io" where
  "pg_restore src =
     check_call (sudo [''pg_restore'', ''-U'', ''postgres'', ''-n'', ''public'',
                       ''-c'', ''-1'', ''-d'', ''kuberdock'', path_str src] ''postgres'')"

section \<open>The resources\<close>

text \<open>
  A resource is a class with the two class methods \<^verbatim>\<open>backup(dst)\<close> and
  \<^verbatim>\<open>restore(zip_archive)\<close>. What a method returns is only printed; it is a path or
  \<^verbatim>\<open>None\<close> (the file object that \<^verbatim>\<open>SSHKeysResource.restore\<close> returns is represented by
  its path).
\<close>

record resource =
  name :: string
  backup :: "path \<Rightarrow> path option io"
  restore :: "zip \<Rightarrow> path option io"

definition PostgresResource_backup :: "path \<Rightarrow> path option io" where
  "PostgresResource_backup dst =
     seq (mkstemp ''postgres-'' dst ''.backup.in_progress'')
       (\<lambda>postgres_tmp. seq (pg_dump (DATABASES ! 0) postgres_tmp)
          (\<lambda>u. seq (os_rename postgres_tmp (dst @ [''postgresql.backup'']))
             (\<lambda>u. ret (Some (dst @ [''postgresql.backup''])))))"

definition PostgresResource_restore :: "zip \<Rightarrow> path option io" where
  "PostgresResource_restore zip_archive =
     seq gettempdir
       (\<lambda>tmp. seq (mkstemp ''tmp'' tmp [])
          (\<lambda>src. seq (try_finally
                 (seq (getpwnam ''postgres'')
                    (\<lambda>uid. seq (zip_open zip_archive ''postgresql.backup'')
                       (\<lambda>c. seq (fill src c) (\<lambda>u. pg_restore src))))
                 (os_unlink src))
             (\<lambda>u. ret (Some src))))"

definition EtcdResource_backup :: "path \<Rightarrow> path option io" where
  "EtcdResource_backup dst =
     seq (mkdtemp ''etcd-'' dst ''-inprogress'')
       (\<lambda>etcd_tmp. seq (os_listdir ETCD_DATA)
          (\<lambda>fns. seq (for_each (\<lambda>fn. shutil_copytree (ETCD_DATA @ [fn]) (etcd_tmp @ [fn])) fns)
             (\<lambda>u. seq (touch (etcd_tmp @ [''snap'', ''dummy'']))
                (\<lambda>u. seq (os_rename etcd_tmp (dst @ [''etcd'']))
                   (\<lambda>u. ret (Some (dst @ [''etcd''])))))))"

text \<open>\<^verbatim>\<open>try: a; b except OSError: pass\<close>.\<close>

definition ignoring_OSError :: "unit io \<Rightarrow> unit io" where
  "ignoring_OSError m w =
     (case m w of (Inl e, w') \<Rightarrow> (if e = OSError then ret () w' else throw e w')
                | (Inr u, w') \<Rightarrow> ret () w')"

definition EtcdResource_restore :: "zip \<Rightarrow> path option io" where
  "EtcdResource_restore zip_archive =
     seq gettempdir
       (\<lambda>tmp. seq (mkdtemp ''tmp'' tmp [])
          (\<lambda>src. seq (try_finally
                 (seq (extractall zip_archive src
                         (filter (\<lambda>x. prefix ''etcd'' x) (namelist zip_archive)))
                    (\<lambda>u. seq (os_listdir (src @ [''etcd_pki'']))
                    (\<lambda>fns. seq (for_each (\<lambda>fn. shutil_copy_slash (src @ [''etcd_pki'', fn]) ETCD_PKI)
                                 fns)
                    (\<lambda>u. seq (ignoring_OSError
                                (seq (shutil_rmtree (ETCD_DATA @ [''wal'']))
                                   (\<lambda>u. shutil_rmtree (ETCD_DATA @ [''snap'']))))
                    (\<lambda>u. seq (os_listdir (src @ [''etcd'']))
                    (\<lambda>fns. seq (for_each (\<lambda>fn. shutil_copytree (src @ [''etcd'', fn])
                                                (ETCD_DATA @ [fn])) fns)
                    (\<lambda>u. seq (getpwnam ''etcd'')
                    (\<lambda>uid. seq (getgrnam ''etcd'') (\<lambda>gid. ret ())))))))))
                 (shutil_rmtree src))
             (\<lambda>u. ret (Some src))))"

definition KubeTokenResource_backup :: "path \<Rightarrow> path option io" where
  "KubeTokenResource_backup dst =
     seq (shutil_copy KNOWN_TOKENS dst)
       (\<lambda>u. seq (shutil_copy NODE_CONFIGFILE dst)
          (\<lambda>u. ret (Some (dst @ [''known_tokens.csv'']))))"

definition KubeTokenResource_restore :: "zip \<Rightarrow> path option io" where
  "KubeTokenResource_restore zip_archive =
     seq (open_w KNOWN_TOKENS)
       (\<lambda>u. seq (zip_open zip_archive ''known_tokens.csv'')
       (\<lambda>c. seq (fill KNOWN_TOKENS c)
       (\<lambda>u. seq (open_w NODE_CONFIGFILE)
       (\<lambda>u. seq (zip_open zip_archive ''configfile_for_nodes'')
       (\<lambda>c. seq (fill NODE_CONFIGFILE c)
       (\<lambda>u. ret None))))))"

definition SSHKeysResource_backup :: "path \<Rightarrow> path option io" where
  "SSHKeysResource_backup dst =
     seq (mkstemp ''ssh-key-'' dst ''.backup.in_progress'')
       (\<lambda>key_tmp. seq (read_file SSH_KEY)
       (\<lambda>c. seq (fill key_tmp c)
       (\<lambda>u. seq (shutil_copy SSH_KEY_pub dst)
       (\<lambda>u. seq (os_rename key_tmp (dst @ [''id_rsa'']))
       (\<lambda>u. ret (Some (dst @ [''id_rsa''])))))))"

definition SSHKeysResource_restore :: "zip \<Rightarrow> path option io" where
  "SSHKeysResource_restore zip_archive =
     seq (open_w SSH_KEY)
       (\<lambda>u. seq (zip_open zip_archive ''id_rsa'')
       (\<lambda>c. seq (fill SSH_KEY c)
       (\<lambda>u. seq (open_w SSH_KEY_pub)
       (\<lambda>u. seq (zip_open zip_archive ''id_rsa.pub'')
       (\<lambda>c. seq (fill SSH_KEY_pub c)
       (\<lambda>u. ret (Some SSH_KEY_pub)))))))"

definition EtcdCertResource_backup :: "path \<Rightarrow> path option io" where
  "EtcdCertResource_backup dst =
     seq (mkdtemp ''etcd-'' dst ''-inprogress'')
       (\<lambda>etcd_tmp. seq (os_listdir [''etc'', ''pki'', ''etcd''])
       (\<lambda>fns. seq (for_each (\<lambda>fn. shutil_copy ([''etc'', ''pki'', ''etcd''] @ [fn]) etcd_tmp) fns)
       (\<lambda>u. seq (os_rename etcd_tmp (dst @ [''etcd_pki'']))
       (\<lambda>u. ret (Some (dst @ [''etcd_pki'']))))))"

definition EtcdCertResource_restore :: "zip \<Rightarrow> path option io" where
  "EtcdCertResource_restore zip_archive = ret None"

definition LicenseResource_backup :: "path \<Rightarrow> path option io" where
  "LicenseResource_backup dst w =
     (if isfile (files w) LICENSE
      then seq (shutil_copy LICENSE dst) (\<lambda>u. ret (Some (dst @ [''.license'']))) w
      else ret None w)"

definition LicenseResource_restore :: "zip \<Rightarrow> path option io" where
  "LicenseResource_restore zip_archive =
     (if ''.license'' \<in> set (namelist zip_archive)
      then seq (open_w LICENSE)
             (\<lambda>u. seq (zip_open zip_archive ''.license'')
             (\<lambda>c. seq (fill LICENSE c) (\<lambda>u. ret None)))
      else ret None)"

definition config_src :: path where
  "config_src = [''etc'', ''nginx'', ''conf.d'']"

definition SharedNginxConfigResource_backup :: "path \<Rightarrow> path option io" where
  "SharedNginxConfigResource_backup dst =
     seq (mkdtemp ''nginx-config-'' dst ''-inprogress'')
       (\<lambda>config_tmp. seq (os_listdir config_src)
       (\<lambda>fns. seq (for_each (\<lambda>fn. shutil_copy (config_src @ [fn]) config_tmp) fns)
       (\<lambda>u. seq (os_rename config_tmp (dst @ [''nginx_config'']))
       (\<lambda>u. ret (Some (dst @ [''nginx_config'']))))))"

definition SharedNginxConfigResource_restore :: "zip \<Rightarrow> path option io" where
  "SharedNginxConfigResource_restore zip_archive =
     seq gettempdir
       (\<lambda>tmp. seq (mkdtemp ''tmp'' tmp [])
          (\<lambda>src. seq (try_finally
                 (seq (extractall zip_archive src
                         (filter (\<lambda>x. prefix ''nginx'' x) (namelist zip_archive)))
                    (\<lambda>u. seq (os_listdir (src @ [''nginx_config'']))
                    (\<lambda>fns. for_each (\<lambda>fn. shutil_copy_slash (src @ [''nginx_config'', fn])
                                         config_src)
                             fns)))
                 (shutil_rmtree src))
             (\<lambda>u. ret (Some src))))"

definition PostgresResource :: resource where
  "PostgresResource = \<lparr>name = ''PostgresResource'', backup = PostgresResource_backup,
     restore = PostgresResource_restore\<rparr>"

definition EtcdResource :: resource where
  "EtcdResource = \<lparr>name = ''EtcdResource'', backup = EtcdResource_backup,
     restore = EtcdResource_restore\<rparr>"

definition KubeTokenResource :: resource where
  "KubeTokenResource = \<lparr>name = ''KubeTokenResource'', backup = KubeTokenResource_backup,
     restore = KubeTokenResource_restore\<rparr>"

definition SSHKeysResource :: resource where
  "SSHKeysResource = \<lparr>name = ''SSHKeysResource'', backup = SSHKeysResource_backup,
     restore = SSHKeysResource_restore\<rparr>"

definition EtcdCertResource :: resource where
  "EtcdCertResource = \<lparr>name = ''EtcdCertResource'', backup = EtcdCertResource_backup,
     restore = EtcdCertResource_restore\<rparr>"

definition LicenseResource :: resource where
  "LicenseResource = \<lparr>name = ''LicenseResource'', backup = LicenseResource_backup,
     restore = LicenseResource_restore\<rparr>"

definition SharedNginxConfigResource :: resource where
  "SharedNginxConfigResource = \<lparr>name = ''SharedNginxConfigResource'',
     backup = SharedNginxConfigResource_backup, restore = SharedNginxConfigResource_restore\<rparr>"

definition backup_chain :: "resource list" where
  "backup_chain = [PostgresResource, EtcdResource, SSHKeysResource,
                   EtcdCertResource, KubeTokenResource, LicenseResource,
                   SharedNginxConfigResource]"

definition restore_chain :: "resource list" where
  "restore_chain = [PostgresResource, EtcdResource, SSHKeysResource,
                    EtcdCertResource, KubeTokenResource, LicenseResource,
                    SharedNginxConfigResource]"

section \<open>The exclusivity guard\<close>

definition LOCKFILE :: path where
  "LOCKFILE = [''var'', ''lock'', ''kd-master-backup.lock'']"

definition lock_message :: "path \<Rightarrow> string" where
  "lock_message lockfile =
     ''Another backup/restore process already running.'' @
     '' If it is not, try to remove `'' @ path_str lockfile @ ''` and '' @
     ''try again.''"

text \<open>
  The decorator \<^verbatim>\<open>lock(lockfile)\<close> applied to \<open>clbl\<close>: the wrapper creates the marker or
  raises \<^verbatim>\<open>BackupError\<close>, runs \<open>clbl\<close> and unlinks the marker in a \<^verbatim>\<open>finally\<close> clause.
\<close>

definition lock :: "path \<Rightarrow> 'a io \<Rightarrow> 'a io" where
  "lock lockfile clbl w =
     (case os_open_excl lockfile w of
        (Inl e, w') \<Rightarrow>
          (if e = OSError then throw (BackupError (lock_message lockfile)) w' else throw e w')
      | (Inr u, w') \<Rightarrow> try_finally clbl (os_unlink lockfile) w')"

section \<open>Backup and restore\<close>

text \<open>
  The body of both loops:
  \<^verbatim>\<open>try: step except subprocess.CalledProcessError as err: logger.error(...); if not skip_errors: raise\<close>.
\<close>

definition guarded :: "bool \<Rightarrow> string \<Rightarrow> unit io \<Rightarrow> unit io" where
  "guarded skip_errors what step w =
     (case step w of
        (Inl (CalledProcessError cmd rc), w') \<Rightarrow>
          seq (logger_error (what @ str_CalledProcessError cmd rc))
            (\<lambda>u. if \<not> skip_errors then throw (CalledProcessError cmd rc) else ret ()) w'
      | (r, w') \<Rightarrow> (r, w'))"

definition backup_step :: "bool \<Rightarrow> path \<Rightarrow> resource \<Rightarrow> unit io" where
  "backup_step skip_errors backup_dst res =
     guarded skip_errors (str_class (name res) @ '' backuping error: '')
       (seq (backup res backup_dst)
          (\<lambda>subresult. logger_info (''File collected: '' @ str_result subresult)))"

definition restore_step :: "bool \<Rightarrow> zip \<Rightarrow> resource \<Rightarrow> unit io" where
  "restore_step skip_errors zip_archive res =
     guarded skip_errors (str_class (name res) @ '' restore error: '')
       (seq (restore res zip_archive)
          (\<lambda>subresult. logger_info (''File restored: '' @ str_result subresult @
                                      '' ('' @ str_class (name res) @ '')'')))"

text \<open>\<^verbatim>\<open>zipdir(path, ziph)\<close>: every file that \<^verbatim>\<open>os.walk\<close> reaches, under its relative name.\<close>

definition zipdir :: "path \<Rightarrow> fs \<Rightarrow> zip" where
  "zipdir path t =
     concat (map (\<lambda>(p, n). case n of Dir \<Rightarrow> []
                              | File c \<Rightarrow> [(join_with CHR ''/'' (drop (length path) p), c)])
               (descendants t path))"

text \<open>
  \<^verbatim>\<open>do_backup\<close> without its decorator, over any chain, in its three parts: up to the
  loop, the loop, and from the loop on. \<^verbatim>\<open>do_backup\<close> runs it over \<open>backup_chain\<close> under
  the lock.
\<close>

definition backup_prepare :: "path \<Rightarrow> (string \<times> path) io" where
  "backup_prepare backup_dir =
     seq (\<lambda>w. if exists_path (files w) backup_dir then ret () w else os_makedirs backup_dir w)
     (\<lambda>u. seq (\<lambda>w. ret (today (sys w)) w)
     (\<lambda>timestamp. seq (logger_info (''Backup started '' @ path_str backup_dir))
     (\<lambda>u. seq (mkdtemp timestamp backup_dir [])
     (\<lambda>backup_dst. seq (addFileHandler (backup_dst @ [''main.log'']))
     (\<lambda>u. ret (timestamp, backup_dst))))))"

definition backup_package :: "path \<Rightarrow> string \<Rightarrow> path \<Rightarrow> string option \<Rightarrow> path io" where
  "backup_package backup_dir timestamp backup_dst callback =
     seq (zip_write (backup_dir @ [timestamp @ ''.zip'']) (zipdir backup_dst))
     (\<lambda>u. seq (logger_info (''Backup finished '' @ path_str (backup_dir @ [timestamp @ ''.zip''])))
     (\<lambda>u. seq (case callback of
                 None \<Rightarrow> ret ()
               | Some cb \<Rightarrow>
                   if cb = [] then ret ()
                   else Popen_shell (cb @ '' '' @ path_str (backup_dir @ [timestamp @ ''.zip''])))
     (\<lambda>u. ret (backup_dir @ [timestamp @ ''.zip'']))))"

definition backup_run :: "resource list \<Rightarrow> path \<Rightarrow> string option \<Rightarrow> bool \<Rightarrow> path io" where
  "backup_run chain backup_dir callback skip_errors =
     seq (backup_prepare backup_dir)
       (\<lambda>(timestamp, backup_dst).
          seq (for_each (backup_step skip_errors backup_dst) chain)
            (\<lambda>u. backup_package backup_dir timestamp backup_dst callback))"

definition do_backup :: "path \<Rightarrow> string option \<Rightarrow> bool \<Rightarrow> path io" where
  "do_backup backup_dir callback skip_errors =
     lock LOCKFILE (backup_run backup_chain backup_dir callback skip_errors)"

text \<open>
  \<^verbatim>\<open>purge_nodes\<close> only calls into the \<^verbatim>\<open>kubedock\<close> application; its outcome is taken
  from the environment.
\<close>

definition purge_nodes :: "unit io" where
  "purge_nodes w = (case purge_outcome (sys w) of None \<Rightarrow> ret () w | Some e \<Rightarrow> throw e w)"

definition restore_prepare :: "path \<Rightarrow> zip io" where
  "restore_prepare backup_file =
     seq (logger_info (''Restore started '' @ path_str backup_file))
     (\<lambda>u. seq (check_call [''systemctl'', ''restart'', ''postgresql''])
     (\<lambda>u. seq (check_call [''systemctl'', ''stop'', ''etcd'', ''kube-apiserver''])
     (\<lambda>u. zip_read backup_file)))"

definition restore_finish :: "bool \<Rightarrow> unit io" where
  "restore_finish without_nodes =
     seq (check_call [''systemctl'', ''start'', ''etcd''])
     (\<lambda>u. seq (check_call [''systemctl'', ''start'', ''kube-apiserver''])
     (\<lambda>u. seq (check_call [''systemctl'', ''restart'', ''nginx''])
     (\<lambda>u. seq (check_call [''systemctl'', ''restart'', ''emperor.uwsgi''])
     (\<lambda>u. seq (if without_nodes then purge_nodes else ret ())
     (\<lambda>u. logger_info ''Restore finished'')))))"

definition restore_run :: "resource list \<Rightarrow> path \<Rightarrow> bool \<Rightarrow> bool \<Rightarrow> unit io" where
  "restore_run chain backup_file without_nodes skip_errors =
     seq (restore_prepare backup_file)
       (\<lambda>zip_archive.
          seq (for_each (restore_step skip_errors zip_archive) chain)
            (\<lambda>u. restore_finish without_nodes))"

definition do_restore :: "path \<Rightarrow> bool \<Rightarrow> bool \<Rightarrow> unit io" where
  "do_restore backup_file without_nodes skip_errors =
     lock LOCKFILE (restore_run restore_chain backup_file without_nodes skip_errors)"

section \<open>The command line\<close>

text \<open>
  \<^verbatim>\<open>argparse\<close> splits the command line; what the script declares is the action of each
  option. A command line is given here as the options that occur before the
  subcommand, in their order, and the subcommand with its arguments.
\<close>

datatype opt = Verbose | Quiet | WithoutNodes | Skip

datatype command = Backup path "string option" | Restore path

record namespace =
  ns_loglevel :: "nat option"
  ns_without_nodes :: bool
  ns_skip_errors :: bool
  ns_func :: command

text \<open>
  \<^verbatim>\<open>-v\<close> and \<^verbatim>\<open>-q\<close> store a constant and exclude each other; \<^verbatim>\<open>--without-nodes\<close> is
  \<^verbatim>\<open>store_true\<close> (default \<^verbatim>\<open>False\<close>); \<^verbatim>\<open>--skip\<close> is \<^verbatim>\<open>store_false\<close> on
  \<^verbatim>\<open>skip_errors\<close> (default \<^verbatim>\<open>True\<close>). A usage error exits with status 2.
\<close>

fun take_action :: "opt \<Rightarrow> namespace \<Rightarrow> exn + namespace" where
  "take_action Verbose ns =
     (if ns_loglevel ns = Some WARN then Inl (SystemExit 2) else Inr (ns\<lparr>ns_loglevel := Some DEBUG\<rparr>))"
| "take_action Quiet ns =
     (if ns_loglevel ns = Some DEBUG then Inl (SystemExit 2) else Inr (ns\<lparr>ns_loglevel := Some WARN\<rparr>))"
| "take_action WithoutNodes ns = Inr (ns\<lparr>ns_without_nodes := True\<rparr>)"
| "take_action Skip ns = Inr (ns\<lparr>ns_skip_errors := False\<rparr>)"

fun take_actions :: "opt list \<Rightarrow> namespace \<Rightarrow> exn + namespace" where
  "take_actions [] ns = Inr ns"
| "take_actions (x # xs) ns =
     (case take_action x ns of Inl e \<Rightarrow> Inl e | Inr ns' \<Rightarrow> take_actions xs ns')"

definition parse_args :: "opt list \<Rightarrow> command \<Rightarrow> exn + namespace" where
  "parse_args opts cmd =
     take_actions opts \<lparr>ns_loglevel = None, ns_without_nodes = False, ns_skip_errors = True,
                        ns_func = cmd\<rparr>"

definition main :: "opt list \<Rightarrow> command \<Rightarrow> unit io" where
  "main opts cmd w =
     (if getuid (sys w) \<noteq> 0 then throw (Exception ''Root permissions required to run this script'') w
      else case parse_args opts cmd of
          Inl e \<Rightarrow> throw e w
        | Inr ns \<Rightarrow>
            (let w' = w\<lparr>level := (case ns_loglevel ns of None \<Rightarrow> INFO | Some l \<Rightarrow> l)\<rparr> in
             case ns_func ns of
               Backup backup_dir callback \<Rightarrow>
                 seq (do_backup backup_dir callback (ns_skip_errors ns)) (\<lambda>r. ret ()) w'
             | Restore backup_file \<Rightarrow>
                 do_restore backup_file (ns_without_nodes ns) (ns_skip_errors ns) w'))"

section \<open>Example worlds\<close>

text \<open>
  A machine on which every external command succeeds, one on which the commands run
  through \<^verbatim>\<open>sudo\<close> (\<^verbatim>\<open>pg_dump\<close>, \<^verbatim>\<open>pg_restore\<close>) exit with status 1, and small file
  systems.
\<close>

definition sys_ok :: sys where
  "sys_ok = \<lparr>exit_status = (\<lambda>cmd. 0), pg_dump_stdout = ''D'', passwd = (\<lambda>u. Some 26),
     groups = (\<lambda>g. Some 26), today = ''T'', tempdir = [''tmp''], getuid = 0,
     purge_outcome = None\<rparr>"

definition sys_failing :: sys where
  "sys_failing = sys_ok\<lparr>exit_status := (\<lambda>cmd. if take 1 cmd = [''sudo''] then 1 else 0)\<rparr>"

definition world_of :: "sys \<Rightarrow> fs \<Rightarrow> world" where
  "world_of s t = \<lparr>files = t, seen = [], names = [''a'', ''b'', ''c'', ''d'', ''e'', ''f'', ''g'', ''h''],
     log = [], level = INFO, handlers = [], calls = [], spawned = [], sys = s\<rparr>"

definition lock_dir_fs :: fs where
  "lock_dir_fs = [([''var''], Dir), ([''var'', ''lock''], Dir)]"

definition locked_fs :: fs where
  "locked_fs = [([''var''], Dir), ([''var'', ''lock''], Dir),
                ([''var'', ''lock'', ''kd-master-backup.lock''], File (Bytes []))]"

text \<open>
  What every state of a real file system satisfies: no path occurs twice and no name
  contains a slash.
\<close>

definition wf_fs :: "fs \<Rightarrow> bool" where
  "wf_fs t = (distinct (map fst t) \<and> list_all (\<lambda>(p, n). list_all (\<lambda>x. CHR ''/'' \<notin> set x) p) t)"

definition tokens_fs :: fs where
  "tokens_fs = [([''etc''], Dir), ([''etc'', ''kubernetes''], Dir),
     ([''etc'', ''kubernetes'', ''known_tokens.csv''], File (Bytes ''K'')),
     ([''etc'', ''kubernetes'', ''configfile_for_nodes''], File (Bytes ''N''))]"

section \<open>Unfolding\<close>

lemmas io_defs = seq_def ret_def throw_def commit_def try_finally_def
lemmas path_defs = node_at_def exists_path_def isdir_def isfile_def path_str_def
lemmas os_defs = os_open_excl_def os_unlink_def os_listdir_def os_mkdir_def os_makedirs_def
  os_rename_def has_children_def moved_def open_w_def fill_def write_file_def read_file_def
  touch_def mktemp_node_def mkstemp_def mkdtemp_def gettempdir_def shutil_copy_def
  shutil_copy_slash_def
  shutil_rmtree_def reachable_def descendants_def noting_def shutil_copytree_def
  zip_open_def zip_read_def zip_write_def namelist_def zip_extract_def extractall_def
  check_call_def Popen_shell_def getpwnam_def getgrnam_def
lemmas log_defs = emit_to_def logger_log_def logger_info_def logger_error_def
  addFileHandler_def INFO_def ERROR_def WARN_def DEBUG_def str_class_def str_result_def
  str_CalledProcessError_def repr_list_def quoted_def
lemmas const_defs = DATABASES_def NICENESS_def ETCD_DATA_def KNOWN_TOKENS_def
  NODE_CONFIGFILE_def SSH_KEY_def SSH_KEY_pub_def ETCD_PKI_def LICENSE_def LOCKFILE_def
  config_src_def nice_def sudo_def pg_dump_def pg_restore_def
lemmas world_defs = world_of_def sys_ok_def

lemmas run_defs = lock_def lock_message_def backup_run_def backup_prepare_def backup_package_def
  backup_step_def restore_step_def guarded_def zipdir_def restore_run_def restore_prepare_def
  restore_finish_def purge_nodes_def do_backup_def do_restore_def main_def parse_args_def
lemmas res_defs = backup_chain_def restore_chain_def PostgresResource_def EtcdResource_def
  SSHKeysResource_def EtcdCertResource_def KubeTokenResource_def LicenseResource_def
  SharedNginxConfigResource_def PostgresResource_backup_def PostgresResource_restore_def
  EtcdResource_backup_def EtcdResource_restore_def KubeTokenResource_backup_def
  KubeTokenResource_restore_def SSHKeysResource_backup_def SSHKeysResource_restore_def
  EtcdCertResource_backup_def EtcdCertResource_restore_def LicenseResource_backup_def
  LicenseResource_restore_def SharedNginxConfigResource_backup_def
  SharedNginxConfigResource_restore_def ignoring_OSError_def

lemma str_nat_19: "str_nat 19 = ''19''"
  by code_simp

lemma str_nat_1: "str_nat 1 = ''1''"
  by code_simp

lemma io_result: "fst x = r \<Longrightarrow> x = (r, snd x)"
  by (cases x) simp

section \<open>Sequencing\<close>

lemma seq_ret: "seq (ret x) f = f x"
  by (rule ext) (simp add: seq_def ret_def)

lemma seq_throw: "seq (throw e) f = throw e"
  by (rule ext) (simp add: seq_def throw_def)

lemma seq_Inr: "m w = (Inr x, w') \<Longrightarrow> seq m f w = f x w'"
  by (simp add: seq_def)

lemma seq_Inl: "m w = (Inl e, w') \<Longrightarrow> seq m f w = (Inl e, w')"
  by (simp add: seq_def)

lemma for_each_append:
  "for_each f (xs @ ys) = seq (for_each f xs) (\<lambda>u. for_each f ys)"
proof (induction xs)
  case Nil
  show ?case by (simp add: seq_ret)
next
  case (Cons x xs)
  show ?case
    by (rule ext) (simp add: Cons seq_def split: prod.splits sum.splits)
qed

lemma logger_log_ok: "\<exists>w'. logger_log lvl msg w = (Inr (), w')"
proof -
  have "\<exists>w'. for_each (emit_to msg) hs w = (Inr (), w')" for hs w
  proof (induction hs arbitrary: w)
    case Nil
    show ?case by (simp add: ret_def)
  next
    case (Cons h hs)
    have "\<exists>w1. emit_to msg h w = (Inr (), w1)"
      by (simp add: emit_to_def fill_def commit_def ret_def
          split: option.splits node.splits content.splits)
    then obtain w1 where "emit_to msg h w = (Inr (), w1)" ..
    with Cons[of w1] show ?case by (simp add: seq_def)
  qed
  then show ?thesis by (simp add: logger_log_def ret_def)
qed

lemma seq_logger_log: "seq (logger_log lvl msg) f w = f () (snd (logger_log lvl msg w))"
  using logger_log_ok [of lvl msg w] by (auto simp: seq_def)

section \<open>What logging and unlinking change\<close>

lemma node_at_Nil: "node_at t [] = Some Dir"
  by (simp add: node_at_def)

lemma node_at_update: "node_at (AList.update q n t) p = (if p = q \<and> p \<noteq> [] then Some n else node_at t p)"
  by (simp add: node_at_def update_conv')

lemma node_at_delete: "node_at (AList.delete q t) p = (if p = q \<and> p \<noteq> [] then None else node_at t p)"
  by (simp add: node_at_def delete_conv')

lemma emit_to_frame:
  "emit_to msg h w = (r, w') \<Longrightarrow>
   r = Inr () \<and> handlers w' = handlers w \<and>
   (\<forall>p. p \<noteq> h \<longrightarrow> node_at (files w') p = node_at (files w) p) \<and>
   (\<forall>p. isfile (files w') p = isfile (files w) p)"
  by (auto simp: emit_to_def fill_def commit_def ret_def node_at_update isfile_def
      split: option.splits node.splits content.splits if_splits)

lemma emit_loop_frame:
  "for_each (emit_to msg) hs w = (r, w') \<Longrightarrow>
   handlers w' = handlers w \<and>
   (\<forall>p. p \<notin> set hs \<longrightarrow> node_at (files w') p = node_at (files w) p) \<and>
   (\<forall>p. isfile (files w') p = isfile (files w) p)"
proof (induction hs arbitrary: w r w')
  case Nil
  then show ?case by (simp add: ret_def)
next
  case (Cons h hs)
  obtain r1 w1 where e: "emit_to msg h w = (r1, w1)" by (cases "emit_to msg h w")
  from Cons.prems e emit_to_frame [OF e] have "for_each (emit_to msg) hs w1 = (r, w')"
    by (simp add: seq_def)
  from Cons.IH [OF this] emit_to_frame [OF e] show ?case by auto
qed

lemma logger_log_frame:
  "logger_log lvl msg w = (r, w') \<Longrightarrow>
   handlers w' = handlers w \<and>
   (\<forall>p. p \<notin> set (handlers w) \<longrightarrow> node_at (files w') p = node_at (files w) p) \<and>
   (\<forall>p. isfile (files w') p = isfile (files w) p)"
  using emit_loop_frame [of msg "handlers w" "w\<lparr>log := log w @ [(lvl, msg)]\<rparr>" r w']
  by (auto simp: logger_log_def ret_def split: if_splits)

lemma os_unlink_frame:
  "os_unlink q w = (r, w') \<Longrightarrow>
   \<not> isfile (files w') q \<and> (\<forall>p. p \<noteq> q \<longrightarrow> node_at (files w') p = node_at (files w) p) \<and>
   (r = Inr () \<longleftrightarrow> isfile (files w) q) \<and>
   (\<not> isdir (files w) q \<longrightarrow> \<not> exists_path (files w') q)"
  by (auto simp: os_unlink_def commit_def throw_def node_at_delete node_at_Nil isfile_def isdir_def
      exists_path_def split: if_splits option.splits node.splits)

section \<open>The chains\<close>

text \<open>
  C7. The chain of a backup run and the chain of a restore run are the same sequence of
  the seven resources: database, key-value store, SSH keys, certificates, tokens and
  node configuration, license, shared proxy configuration. \<^verbatim>\<open>do_backup\<close> and
  \<^verbatim>\<open>do_restore\<close> therefore walk one and the same sequence.
\<close>

theorem chain_order:
  "restore_chain = backup_chain \<and>
   backup_chain = [PostgresResource, EtcdResource, SSHKeysResource, EtcdCertResource,
                   KubeTokenResource, LicenseResource, SharedNginxConfigResource] \<and>
   distinct (map name backup_chain) \<and>
   do_backup backup_dir callback skip_errors =
     lock LOCKFILE (backup_run restore_chain backup_dir callback skip_errors) \<and>
   do_restore backup_file without_nodes skip_errors =
     lock LOCKFILE (restore_run backup_chain backup_file without_nodes skip_errors)"
  by (simp add: restore_chain_def backup_chain_def do_backup_def do_restore_def
      PostgresResource_def EtcdResource_def SSHKeysResource_def EtcdCertResource_def
      KubeTokenResource_def LicenseResource_def SharedNginxConfigResource_def)

section \<open>The guard\<close>

text \<open>
  C5. When the lock marker exists, the wrapper raises \<^verbatim>\<open>BackupError\<close> at once, with a
  message that holds the path of the marker and the advice to remove it. The world is
  returned as it was: nothing of the guarded operation has run, whatever it is.
\<close>

theorem lock_held:
  "exists_path (files w) lockfile \<Longrightarrow>
   lock lockfile clbl w =
     (Inl (BackupError (''Another backup/restore process already running. If it is not, try to remove `''
            @ path_str lockfile @ ''` and try again.'')), w)"
  by (simp add: lock_def os_open_excl_def throw_def lock_message_def)

theorem lock_held_witness:
  "exists_path (files (world_of sys_ok locked_fs)) LOCKFILE \<and>
   do_backup [''backup''] None False (world_of sys_ok locked_fs) =
     (Inl (BackupError ''Another backup/restore process already running. If it is not, try to remove `/var/lock/kd-master-backup.lock` and try again.''),
      world_of sys_ok locked_fs)"
proof -
  have h: "exists_path (files (world_of sys_ok locked_fs)) LOCKFILE"
    by (simp add: exists_path_def node_at_def world_of_def locked_fs_def LOCKFILE_def)
  show ?thesis
    using h lock_held [OF h, of "backup_run backup_chain [''backup''] None False"]
    by (simp add: do_backup_def path_str_def LOCKFILE_def)
qed

text \<open>
  C4. Once the marker has been created, whatever the guarded operation does and however
  it ends (a value or an exception), no lock marker file is left when the wrapper is
  done; and unless the operation itself has put a directory in the marker's place,
  nothing at all is left at the marker's path.
\<close>

theorem lock_released:
  assumes "os_open_excl lockfile w = (Inr (), w1)"
  shows "\<not> isfile (files (snd (lock lockfile clbl w))) lockfile \<and>
         (\<not> isdir (files (snd (clbl w1))) lockfile \<longrightarrow>
          \<not> exists_path (files (snd (lock lockfile clbl w))) lockfile)"
proof -
  obtain r w2 where c: "clbl w1 = (r, w2)" by (cases "clbl w1")
  obtain u w3 where f: "os_unlink lockfile w2 = (u, w3)" by (cases "os_unlink lockfile w2")
  have "snd (lock lockfile clbl w) = w3"
    using assms c f by (simp add: lock_def try_finally_def split: sum.splits)
  with os_unlink_frame [OF f] c show ?thesis by simp
qed

theorem lock_released_witness:
  "fst (os_open_excl LOCKFILE (world_of sys_ok lock_dir_fs)) = Inr () \<and>
   \<not> isdir (files (snd (restore_run restore_chain [''z''] False False
                          (snd (os_open_excl LOCKFILE (world_of sys_ok lock_dir_fs)))))) LOCKFILE \<and>
   fst (do_restore [''z''] False False (world_of sys_ok lock_dir_fs)) = Inl IOError \<and>
   \<not> isfile (files (snd (do_restore [''z''] False False (world_of sys_ok lock_dir_fs)))) LOCKFILE \<and>
   \<not> exists_path (files (snd (do_restore [''z''] False False (world_of sys_ok lock_dir_fs)))) LOCKFILE"
proof -
  let ?w = "world_of sys_ok lock_dir_fs"
  let ?w1 = "snd (os_open_excl LOCKFILE ?w)"
  have a: "fst (os_open_excl LOCKFILE ?w) = Inr ()"
    by (simp add: world_defs lock_dir_fs_def io_defs path_defs os_defs const_defs)
  have d: "\<not> isdir (files (snd (restore_run restore_chain [''z''] False False ?w1))) LOCKFILE"
    by (simp add: world_defs lock_dir_fs_def io_defs path_defs os_defs const_defs log_defs
        run_defs)
  have r: "fst (do_restore [''z''] False False ?w) = Inl IOError"
    by (simp add: world_defs lock_dir_fs_def io_defs path_defs os_defs const_defs log_defs
        run_defs)
  from lock_released [OF io_result [OF a], of "restore_run restore_chain [''z''] False False"] d
  have "\<not> isfile (files (snd (do_restore [''z''] False False ?w))) LOCKFILE \<and>
        \<not> exists_path (files (snd (do_restore [''z''] False False ?w))) LOCKFILE"
    by (simp add: do_restore_def)
  with a d r show ?thesis by simp
qed

section \<open>The failure policy\<close>

lemma guarded_fails:
  assumes "step w = (Inl e, w')"
  shows "guarded skip_errors what step w =
     (case e of
        CalledProcessError cmd rc \<Rightarrow>
          (if skip_errors then Inr () else Inl e,
           snd (logger_error (what @ str_CalledProcessError cmd rc) w'))
      | _ \<Rightarrow> (Inl e, w'))"
  using assms
  by (cases e) (simp_all add: guarded_def logger_error_def seq_logger_log throw_def ret_def)

lemma backup_step_fails:
  assumes "backup res backup_dst w = (Inl e, w')"
  shows "backup_step skip_errors backup_dst res w =
     (case e of
        CalledProcessError cmd rc \<Rightarrow>
          (if skip_errors then Inr () else Inl e,
           snd (logger_error ((str_class (name res) @ '' backuping error: '') @
                              str_CalledProcessError cmd rc) w'))
      | _ \<Rightarrow> (Inl e, w'))"
  unfolding backup_step_def
  by (rule guarded_fails) (simp add: seq_def assms)

lemma restore_step_fails:
  assumes "restore res zip_archive w = (Inl e, w')"
  shows "restore_step skip_errors zip_archive res w =
     (case e of
        CalledProcessError cmd rc \<Rightarrow>
          (if skip_errors then Inr () else Inl e,
           snd (logger_error ((str_class (name res) @ '' restore error: '') @
                              str_CalledProcessError cmd rc) w'))
      | _ \<Rightarrow> (Inl e, w'))"
  unfolding restore_step_def
  by (rule guarded_fails) (simp add: seq_def assms)

lemma backup_run_at:
  assumes "backup_prepare backup_dir w0 = (Inr (timestamp, backup_dst), w1)"
  shows "backup_run chain backup_dir callback skip_errors w0 =
         seq (for_each (backup_step skip_errors backup_dst) chain)
           (\<lambda>u. backup_package backup_dir timestamp backup_dst callback) w1"
  using assms by (simp add: backup_run_def seq_def)

lemma restore_run_at:
  assumes "restore_prepare backup_file w0 = (Inr zip_archive, w1)"
  shows "restore_run chain backup_file without_nodes skip_errors w0 =
         seq (for_each (restore_step skip_errors zip_archive) chain)
           (\<lambda>u. restore_finish without_nodes) w1"
  using assms by (simp add: restore_run_def seq_def)

lemma backup_run_step:
  assumes "backup_prepare backup_dir w0 = (Inr (timestamp, backup_dst), w1)"
    and "for_each (backup_step skip_errors backup_dst) pre w1 = (Inr (), w2)"
  shows "backup_run (pre @ res # rest) backup_dir callback skip_errors w0 =
        seq (seq (backup_step skip_errors backup_dst res)
               (\<lambda>u. for_each (backup_step skip_errors backup_dst) rest))
          (\<lambda>u. backup_package backup_dir timestamp backup_dst callback) w2"
  unfolding backup_run_at [OF assms(1)] using assms(2) by (simp add: for_each_append seq_def)

lemma restore_run_step:
  assumes "restore_prepare backup_file v0 = (Inr zip_archive, v1)"
    and "for_each (restore_step skip_errors zip_archive) pre v1 = (Inr (), v2)"
  shows "restore_run (pre @ res # rest) backup_file without_nodes skip_errors v0 =
        seq (seq (restore_step skip_errors zip_archive res)
               (\<lambda>u. for_each (restore_step skip_errors zip_archive) rest))
          (\<lambda>u. restore_finish without_nodes) v2"
  unfolding restore_run_at [OF assms(1)] using assms(2) by (simp add: for_each_append seq_def)

lemma backup_step_abort:
  assumes "backup res backup_dst w = (Inl e, w')"
  shows "\<exists>w''. backup_step False backup_dst res w = (Inl e, w'') \<and>
           handlers w'' = handlers w' \<and>
           (\<forall>p. p \<notin> set (handlers w') \<longrightarrow> node_at (files w'') p = node_at (files w') p) \<and>
           (\<forall>p. isfile (files w'') p = isfile (files w') p)"
proof (cases "\<exists>cmd rc. e = CalledProcessError cmd rc")
  case True
  then obtain cmd rc where e: "e = CalledProcessError cmd rc" by blast
  let ?msg = "(str_class (name res) @ '' backuping error: '') @ str_CalledProcessError cmd rc"
  have "logger_log ERROR ?msg w' = (fst (logger_log ERROR ?msg w'), snd (logger_log ERROR ?msg w'))"
    by simp
  from logger_log_frame [OF this] backup_step_fails [OF assms, of False] e
  show ?thesis by (simp add: logger_error_def)
next
  case False
  with backup_step_fails [OF assms, of False] show ?thesis by (cases e) simp_all
qed

text \<open>
  C6. Let the steps before a resource have gone through and let its step raise \<open>e\<close>, in a
  backup run or in a restore run. If \<open>e\<close> is a \<^verbatim>\<open>CalledProcessError\<close>, it is logged, and
  then the run goes on with the rest of the chain when \<open>skip_errors\<close> is set and ends
  with \<open>e\<close> when it is not. Any other \<open>e\<close> ends the run at once, in the world the step
  left, whatever \<open>skip_errors\<close> is.
\<close>

theorem failure_policy:
  "(backup_prepare backup_dir w0 = (Inr (timestamp, backup_dst), w1) \<longrightarrow>
    for_each (backup_step skip_errors backup_dst) pre w1 = (Inr (), w2) \<longrightarrow>
    backup res backup_dst w2 = (Inl e, w3) \<longrightarrow>
    backup_run (pre @ res # rest) backup_dir callback skip_errors w0 =
      (case e of
         CalledProcessError cmd rc \<Rightarrow>
           (if skip_errors
            then seq (for_each (backup_step skip_errors backup_dst) rest)
                   (\<lambda>u. backup_package backup_dir timestamp backup_dst callback)
                   (snd (logger_error ((str_class (name res) @ '' backuping error: '') @
                                        str_CalledProcessError cmd rc) w3))
            else (Inl e, snd (logger_error ((str_class (name res) @ '' backuping error: '') @
                                           str_CalledProcessError cmd rc) w3)))
       | _ \<Rightarrow> (Inl e, w3))) \<and>
   (restore_prepare backup_file v0 = (Inr zip_archive, v1) \<longrightarrow>
    for_each (restore_step skip_errors zip_archive) pre' v1 = (Inr (), v2) \<longrightarrow>
    restore res' zip_archive v2 = (Inl e', v3) \<longrightarrow>
    restore_run (pre' @ res' # rest') backup_file without_nodes skip_errors v0 =
      (case e' of
         CalledProcessError cmd rc \<Rightarrow>
           (if skip_errors
            then seq (for_each (restore_step skip_errors zip_archive) rest')
                   (\<lambda>u. restore_finish without_nodes)
                   (snd (logger_error ((str_class (name res') @ '' restore error: '') @
                                        str_CalledProcessError cmd rc) v3))
            else (Inl e', snd (logger_error ((str_class (name res') @ '' restore error: '') @
                                           str_CalledProcessError cmd rc) v3)))
       | _ \<Rightarrow> (Inl e', v3)))"
proof (intro conjI impI)
  assume prep: "backup_prepare backup_dir w0 = (Inr (timestamp, backup_dst), w1)"
    and before: "for_each (backup_step skip_errors backup_dst) pre w1 = (Inr (), w2)"
    and fails: "backup res backup_dst w2 = (Inl e, w3)"
  note step = backup_step_fails [OF fails, of skip_errors]
  show "backup_run (pre @ res # rest) backup_dir callback skip_errors w0 =
      (case e of
         CalledProcessError cmd rc \<Rightarrow>
           (if skip_errors
            then seq (for_each (backup_step skip_errors backup_dst) rest)
                   (\<lambda>u. backup_package backup_dir timestamp backup_dst callback)
                   (snd (logger_error ((str_class (name res) @ '' backuping error: '') @
                                        str_CalledProcessError cmd rc) w3))
            else (Inl e, snd (logger_error ((str_class (name res) @ '' backuping error: '') @
                                           str_CalledProcessError cmd rc) w3)))
       | _ \<Rightarrow> (Inl e, w3))"
  proof -
    note run = backup_run_step [OF prep before, of res rest callback]
    show ?thesis
      unfolding run using step by (cases e; cases skip_errors) (simp_all add: seq_def)
  qed
next
  assume prep: "restore_prepare backup_file v0 = (Inr zip_archive, v1)"
    and before: "for_each (restore_step skip_errors zip_archive) pre' v1 = (Inr (), v2)"
    and fails: "restore res' zip_archive v2 = (Inl e', v3)"
  note step = restore_step_fails [OF fails, of skip_errors]
  show "restore_run (pre' @ res' # rest') backup_file without_nodes skip_errors v0 =
      (case e' of
         CalledProcessError cmd rc \<Rightarrow>
           (if skip_errors
            then seq (for_each (restore_step skip_errors zip_archive) rest')
                   (\<lambda>u. restore_finish without_nodes)
                   (snd (logger_error ((str_class (name res') @ '' restore error: '') @
                                        str_CalledProcessError cmd rc) v3))
            else (Inl e', snd (logger_error ((str_class (name res') @ '' restore error: '') @
                                           str_CalledProcessError cmd rc) v3)))
       | _ \<Rightarrow> (Inl e', v3))"
  proof -
    note run = restore_run_step [OF prep before, of res' rest' without_nodes]
    show ?thesis
      unfolding run using step by (cases e'; cases skip_errors) (simp_all add: seq_def)
  qed
qed

theorem failure_policy_witness:
  "fst (backup_prepare [''b''] (world_of sys_ok [])) = Inr (''T'', [''b'', ''Ta'']) \<and>
   fst (for_each (backup_step True [''b'', ''Ta'']) []
          (snd (backup_prepare [''b''] (world_of sys_ok [])))) = Inr () \<and>
   fst (backup KubeTokenResource [''b'', ''Ta'']
          (snd (backup_prepare [''b''] (world_of sys_ok [])))) = Inl IOError \<and>
   fst (backup_run [KubeTokenResource, LicenseResource] [''b''] None True
          (world_of sys_ok [])) = Inl IOError \<and>
   fst (restore_prepare [''z''] (world_of sys_ok [([''z''], File (ZipArchive []))])) = Inr [] \<and>
   fst (restore PostgresResource []
          (snd (restore_prepare [''z''] (world_of sys_ok [([''z''], File (ZipArchive []))]))))
     = Inl OSError \<and>
   fst (restore_run [PostgresResource, EtcdResource] [''z''] False True
          (world_of sys_ok [([''z''], File (ZipArchive []))])) = Inl OSError"
proof -
  let ?w0 = "world_of sys_ok []"
  let ?w1 = "snd (backup_prepare [''b''] ?w0)"
  let ?v0 = "world_of sys_ok [([''z''], File (ZipArchive []))]"
  let ?v1 = "snd (restore_prepare [''z''] ?v0)"
  have p: "fst (backup_prepare [''b''] ?w0) = Inr (''T'', [''b'', ''Ta''])"
    by (simp add: backup_prepare_def world_defs io_defs path_defs os_defs log_defs)
  have b: "for_each (backup_step True [''b'', ''Ta'']) [] ?w1 = (Inr (), ?w1)"
    by (simp add: ret_def)
  have f: "fst (backup KubeTokenResource [''b'', ''Ta''] ?w1) = Inl IOError"
    by (simp add: KubeTokenResource_def KubeTokenResource_backup_def backup_prepare_def
        world_defs io_defs path_defs os_defs log_defs const_defs)
  have p': "fst (restore_prepare [''z''] ?v0) = Inr []"
    by (simp add: restore_prepare_def world_defs io_defs path_defs os_defs log_defs)
  have b': "for_each (restore_step True []) [] ?v1 = (Inr (), ?v1)"
    by (simp add: ret_def)
  have f': "fst (restore PostgresResource [] ?v1) = Inl OSError"
    by (simp add: PostgresResource_def PostgresResource_restore_def restore_prepare_def
        world_defs io_defs path_defs os_defs log_defs const_defs)
  from failure_policy [where backup_dir = "[''b'']" and ?w0.0 = ?w0 and timestamp = "''T''"
      and backup_dst = "[''b'', ''Ta'']" and ?w1.0 = ?w1 and skip_errors = True and pre = "[]"
      and ?w2.0 = ?w1 and res = KubeTokenResource and e = IOError
      and ?w3.0 = "snd (backup KubeTokenResource [''b'', ''Ta''] ?w1)"
      and rest = "[LicenseResource]" and callback = None
      and backup_file = "[''z'']" and ?v0.0 = ?v0 and zip_archive = "[]" and ?v1.0 = ?v1
      and pre' = "[]" and ?v2.0 = ?v1 and res' = PostgresResource and e' = OSError
      and ?v3.0 = "snd (restore PostgresResource [] ?v1)" and rest' = "[EtcdResource]"
      and without_nodes = False]
    io_result [OF p] b io_result [OF f] io_result [OF p'] b' io_result [OF f']
  have "fst (backup_run [KubeTokenResource, LicenseResource] [''b''] None True ?w0) = Inl IOError"
    and "fst (restore_run [PostgresResource, EtcdResource] [''z''] False True ?v0) = Inl OSError"
    by simp_all
  with p b f p' f' show ?thesis by (simp add: ret_def)
qed

text \<open>
  C9. Under the lock and with \<open>skip_errors\<close> off, let the capture step of a resource
  raise after the steps before it have gone through. Then the run ends with an
  exception, and every path other than the lock marker and the log files holds what
  it held when the failing step ended: nothing staged is removed and no archive is
  written.
\<close>

theorem abort_leaves_staging:
  assumes acquired: "os_open_excl LOCKFILE w = (Inr (), w0)"
    and prep: "backup_prepare backup_dir w0 = (Inr (timestamp, backup_dst), w1)"
    and before: "for_each (backup_step False backup_dst) pre w1 = (Inr (), w2)"
    and fails: "backup res backup_dst w2 = (Inl e, w3)"
  shows "\<exists>e' w'. lock LOCKFILE (backup_run (pre @ res # rest) backup_dir callback False) w = (Inl e', w') \<and>
           (if isfile (files w3) LOCKFILE then e' = e else e' = OSError) \<and>
           (\<forall>p. p \<noteq> LOCKFILE \<longrightarrow> p \<notin> set (handlers w3) \<longrightarrow>
                node_at (files w') p = node_at (files w3) p)"
proof -
  from backup_step_abort [OF fails] obtain w4 where
    step: "backup_step False backup_dst res w2 = (Inl e, w4)"
    and keep: "\<forall>p. p \<notin> set (handlers w3) \<longrightarrow> node_at (files w4) p = node_at (files w3) p"
    and lockf: "isfile (files w4) LOCKFILE = isfile (files w3) LOCKFILE"
    by blast
  have run: "backup_run (pre @ res # rest) backup_dir callback False w0 = (Inl e, w4)"
    unfolding backup_run_step [OF prep before] by (simp add: seq_def step)
  obtain u w5 where f: "os_unlink LOCKFILE w4 = (u, w5)" by (cases "os_unlink LOCKFILE w4")
  have res: "lock LOCKFILE (backup_run (pre @ res # rest) backup_dir callback False) w =
      (if isfile (files w4) LOCKFILE then Inl e else Inl OSError, w5)"
    using acquired run f
    by (auto simp: lock_def try_finally_def os_unlink_def throw_def commit_def split: if_splits)
  show ?thesis
    using res os_unlink_frame [OF f] keep lockf by auto
qed

theorem abort_leaves_staging_witness:
  "fst (os_open_excl LOCKFILE (world_of sys_ok lock_dir_fs)) = Inr () \<and>
   fst (do_backup [''b''] None False (world_of sys_ok lock_dir_fs)) = Inl OSError \<and>
   node_at (files (snd (do_backup [''b''] None False (world_of sys_ok lock_dir_fs))))
     [''b'', ''Ta'', ''postgresql.backup''] = Some (File (Bytes ''D'')) \<and>
   node_at (files (snd (do_backup [''b''] None False (world_of sys_ok lock_dir_fs))))
     [''b'', ''T.zip''] = None"
proof -
  let ?w = "world_of sys_ok lock_dir_fs"
  let ?wa = "snd (os_open_excl LOCKFILE ?w)"
  let ?wb = "snd (backup_prepare [''b''] ?wa)"
  let ?dst = "[''b'', ''Ta'']"
  let ?wc = "snd (for_each (backup_step False ?dst) [PostgresResource] ?wb)"
  let ?wd = "snd (backup EtcdResource ?dst ?wc)"
  let ?rest = "[SSHKeysResource, EtcdCertResource, KubeTokenResource, LicenseResource,
                SharedNginxConfigResource]"
  note defs = world_defs lock_dir_fs_def io_defs path_defs os_defs const_defs log_defs run_defs
    res_defs str_nat_19 str_nat_1
  have a: "fst (os_open_excl LOCKFILE ?w) = Inr ()"
    by (simp add: defs del: str_nat.simps)
  have p: "fst (backup_prepare [''b''] ?wa) = Inr (''T'', ?dst)"
    by (simp add: defs del: str_nat.simps)
  have b: "fst (for_each (backup_step False ?dst) [PostgresResource] ?wb) = Inr ()"
    by (simp add: defs del: str_nat.simps)
  have f: "fst (backup EtcdResource ?dst ?wc) = Inl OSError"
    by (simp add: defs del: str_nat.simps)
  have w3: "isfile (files ?wd) LOCKFILE" "handlers ?wd = [[''b'', ''Ta'', ''main.log'']]"
    "node_at (files ?wd) [''b'', ''Ta'', ''postgresql.backup''] = Some (File (Bytes ''D''))"
    "node_at (files ?wd) [''b'', ''T.zip''] = None"
    by (simp_all add: defs del: str_nat.simps)
  from abort_leaves_staging [OF io_result [OF a] io_result [OF p] io_result [OF b]
      io_result [OF f], of ?rest None]
  obtain e' w' where
    r: "lock LOCKFILE (backup_run ([PostgresResource] @ EtcdResource # ?rest) [''b''] None False) ?w
        = (Inl e', w')"
    and e: "if isfile (files ?wd) LOCKFILE then e' = OSError else e' = OSError"
    and k: "\<forall>p. p \<noteq> LOCKFILE \<longrightarrow> p \<notin> set (handlers ?wd) \<longrightarrow>
              node_at (files w') p = node_at (files ?wd) p"
    by blast
  have d: "do_backup [''b''] None False ?w = (Inl e', w')"
    using r by (simp add: do_backup_def backup_chain_def)
  have "node_at (files w') [''b'', ''Ta'', ''postgresql.backup''] = Some (File (Bytes ''D''))"
    using k [rule_format, of "[''b'', ''Ta'', ''postgresql.backup'']"] w3
    by (simp add: LOCKFILE_def)
  moreover have "node_at (files w') [''b'', ''T.zip''] = None"
    using k [rule_format, of "[''b'', ''T.zip'']"] w3 by (simp add: LOCKFILE_def)
  ultimately show ?thesis using a d e by simp
qed

text \<open>
  C1 does not hold of the code. \<^verbatim>\<open>--skip\<close> is declared \<^verbatim>\<open>store_false\<close> on \<^verbatim>\<open>skip_errors\<close>:
  without the flag \<open>skip_errors\<close> is \<open>True\<close> and with it \<open>False\<close>. On a machine where
  \<^verbatim>\<open>pg_dump\<close> fails and there is no etcd data directory, the run without the flag goes
  on to the next resource, which raises \<^verbatim>\<open>OSError\<close>, and the run with \<^verbatim>\<open>--skip\<close> ends
  with the \<^verbatim>\<open>CalledProcessError\<close> of \<^verbatim>\<open>pg_dump\<close>.
\<close>

theorem skip_flag_inverted:
  "map_sum id ns_skip_errors (parse_args [] cmd) = Inr True \<and>
   map_sum id ns_skip_errors (parse_args [Skip] cmd) = Inr False \<and>
   fst (main [] (Backup [''b''] None) (world_of sys_failing lock_dir_fs)) = Inl OSError \<and>
   exists_path (files (snd (main [] (Backup [''b''] None) (world_of sys_failing lock_dir_fs))))
     [''b'', ''Ta'', ''etcd-c-inprogress''] \<and>
   fst (main [Skip] (Backup [''b''] None) (world_of sys_failing lock_dir_fs)) =
     Inl (CalledProcessError [''sudo'', ''-u'', ''postgres'', ''nice'', ''-n'', ''19'', ''pg_dump'',
            ''-C'', ''-Fc'', ''-U'', ''postgres'', ''kuberdock''] 1) \<and>
   \<not> exists_path (files (snd (main [Skip] (Backup [''b''] None) (world_of sys_failing lock_dir_fs))))
     [''b'', ''Ta'', ''etcd-c-inprogress'']"
  by (simp add: world_defs sys_failing_def lock_dir_fs_def io_defs path_defs os_defs const_defs
      log_defs run_defs res_defs str_nat_19 str_nat_1 del: str_nat.simps)

section \<open>The optional license\<close>

lemma logger_log_exists:
  assumes "logger_log lvl msg w = (r, w')"
  shows "exists_path (files w') p = exists_path (files w) p"
proof -
  have e: "exists_path (files w2) p = exists_path (files w1) p"
    if "emit_to msg h w1 = (r1, w2)" for h w1 r1 w2
    using that
    by (auto simp: emit_to_def fill_def commit_def ret_def node_at_update exists_path_def
        split: option.splits node.splits content.splits if_splits)
  have l: "exists_path (files w2) p = exists_path (files w1) p"
    if "for_each (emit_to msg) hs w1 = (r1, w2)" for hs w1 r1 w2
    using that
  proof (induction hs arbitrary: w1)
    case Nil
    then show ?case by (simp add: ret_def)
  next
    case (Cons h hs)
    obtain r3 w3 where s: "emit_to msg h w1 = (r3, w3)" by (cases "emit_to msg h w1")
    with Cons.prems emit_to_frame [OF s] have "for_each (emit_to msg) hs w3 = (r1, w2)"
      by (simp add: seq_def)
    from Cons.IH [OF this] e [OF s] show ?case by simp
  qed
  show ?thesis
    using assms l [of "handlers w" "w\<lparr>log := log w @ [(lvl, msg)]\<rparr>" r w']
    by (auto simp: logger_log_def ret_def split: if_splits)
qed

lemma join_with_single:
  assumes "join_with s xs = y" and "s \<notin> set y" and "xs \<noteq> []"
  shows "xs = [y]"
proof (cases xs)
  case Nil
  with assms show ?thesis by simp
next
  case (Cons x zs)
  with assms show ?thesis by (cases zs) auto
qed

lemma zipdir_member:
  assumes "nm \<in> set (namelist (zipdir d t))"
  shows "\<exists>rel c. rel \<noteq> [] \<and> (d @ rel, File c) \<in> set t \<and> nm = join_with CHR ''/'' rel"
proof -
  from assms obtain p c where m: "(p, File c) \<in> set (descendants t d)"
    and nm: "nm = join_with CHR ''/'' (drop (length d) p)"
    by (auto simp: namelist_def zipdir_def split: node.splits)
  from m have t: "(p, File c) \<in> set t" and sp: "strict_prefix d p"
    by (auto simp: descendants_def)
  from sp obtain rel where "p = d @ rel" "rel \<noteq> []"
    by (auto simp: strict_prefix_def prefix_def)
  with t nm show ?thesis by auto
qed

lemma zipdir_top_level:
  assumes "nm \<in> set (namelist (zipdir d t))" and "CHR ''/'' \<notin> set nm"
  shows "exists_path t (d @ [nm])"
proof -
  from zipdir_member [OF assms(1)] obtain rel c where
    rel: "rel \<noteq> []" "(d @ rel, File c) \<in> set t" "nm = join_with CHR ''/'' rel"
    by blast
  from join_with_single [OF rel(3) [symmetric] assms(2) rel(1)] rel(2)
  have "(d @ [nm], File c) \<in> set t" by simp
  then have "map_of t (d @ [nm]) \<noteq> None"
    by (metis map_of_eq_None_iff fst_conv image_eqI)
  then show ?thesis by (simp add: exists_path_def node_at_def)
qed

text \<open>
  C8. When there is no license file, the capture of the license resource returns
  \<^verbatim>\<open>None\<close> and leaves the world as it is, its step in the loop raises nothing, and a
  staging directory without \<^verbatim>\<open>.license\<close> packs to an archive without a \<^verbatim>\<open>.license\<close>
  member. When the archive has no \<^verbatim>\<open>.license\<close> member, the restore of the license
  resource returns \<^verbatim>\<open>None\<close> and leaves the world as it is, and its step raises nothing.
\<close>

theorem license_optional:
  "(\<not> isfile (files w) LICENSE \<longrightarrow>
      LicenseResource_backup dst w = (Inr None, w) \<and>
      fst (backup_step skip_errors dst LicenseResource w) = Inr () \<and>
      (\<not> exists_path (files w) (dst @ [''.license'']) \<longrightarrow>
         ''.license'' \<notin> set (namelist (zipdir dst
             (files (snd (backup_step skip_errors dst LicenseResource w))))))) \<and>
   (''.license'' \<notin> set (namelist zip_archive) \<longrightarrow>
      LicenseResource_restore zip_archive v = (Inr None, v) \<and>
      fst (restore_step skip_errors zip_archive LicenseResource v) = Inr ())"
proof (intro conjI impI)
  assume a: "\<not> isfile (files w) LICENSE"
  then show b: "LicenseResource_backup dst w = (Inr None, w)"
    by (simp add: LicenseResource_backup_def ret_def)
  let ?msg = "''File collected: '' @ str_result None"
  have s: "backup_step skip_errors dst LicenseResource w = logger_info ?msg w"
    using b logger_log_ok [of INFO ?msg w]
    by (auto simp: backup_step_def guarded_def LicenseResource_def seq_def logger_info_def)
  show "fst (backup_step skip_errors dst LicenseResource w) = Inr ()"
    using logger_log_ok [of INFO ?msg w] by (auto simp: s logger_info_def)
  assume n: "\<not> exists_path (files w) (dst @ [''.license''])"
  have "\<not> exists_path (files (snd (logger_log INFO ?msg w))) (dst @ [''.license''])"
    using n logger_log_exists [of INFO ?msg w "fst (logger_log INFO ?msg w)"
        "snd (logger_log INFO ?msg w)" "dst @ [''.license'']"]
    by simp
  then show "''.license'' \<notin> set (namelist (zipdir dst
             (files (snd (backup_step skip_errors dst LicenseResource w)))))"
    using zipdir_top_level [of "''.license''" dst] by (auto simp: s logger_info_def)
next
  assume a: "''.license'' \<notin> set (namelist zip_archive)"
  then show b: "LicenseResource_restore zip_archive v = (Inr None, v)"
    by (simp add: LicenseResource_restore_def ret_def)
  let ?msg = "''File restored: '' @ str_result None @ '' ('' @ str_class (name LicenseResource) @ '')''"
  show "fst (restore_step skip_errors zip_archive LicenseResource v) = Inr ()"
    using b logger_log_ok [of INFO ?msg v]
    by (auto simp: restore_step_def guarded_def LicenseResource_def seq_def logger_info_def)
qed

theorem license_optional_witness:
  "\<not> isfile (files (world_of sys_ok [([''s''], Dir)])) LICENSE \<and>
   \<not> exists_path (files (world_of sys_ok [([''s''], Dir)])) ([''s''] @ [''.license'']) \<and>
   ''.license'' \<notin> set (namelist [(''id_rsa'', Bytes ''S'')]) \<and>
   LicenseResource_backup [''s''] (world_of sys_ok [([''s''], Dir)]) =
     (Inr None, world_of sys_ok [([''s''], Dir)]) \<and>
   fst (backup_step False [''s''] LicenseResource (world_of sys_ok [([''s''], Dir)])) = Inr () \<and>
   ''.license'' \<notin> set (namelist (zipdir [''s'']
       (files (snd (backup_step False [''s''] LicenseResource (world_of sys_ok [([''s''], Dir)])))))) \<and>
   LicenseResource_restore [(''id_rsa'', Bytes ''S'')] (world_of sys_ok [([''s''], Dir)]) =
     (Inr None, world_of sys_ok [([''s''], Dir)]) \<and>
   fst (restore_step False [(''id_rsa'', Bytes ''S'')] LicenseResource
          (world_of sys_ok [([''s''], Dir)])) = Inr ()"
proof -
  let ?W = "world_of sys_ok [([''s''], Dir)]"
  have a: "\<not> isfile (files ?W) LICENSE"
    and b: "\<not> exists_path (files ?W) ([''s''] @ [''.license''])"
    and c: "''.license'' \<notin> set (namelist [(''id_rsa'', Bytes ''S'')])"
    by (simp_all add: world_defs path_defs const_defs namelist_def)
  from license_optional [of ?W "[''s'']" False "[(''id_rsa'', Bytes ''S'')]" ?W] a b c
  show ?thesis by simp
qed

section \<open>Round trip\<close>

lemma split_on_join:
  "xs \<noteq> [] \<Longrightarrow> list_all (\<lambda>x. s \<notin> set x) xs \<Longrightarrow> split_on s (join_with s xs) = xs"
proof (induction s xs rule: join_with.induct)
  case (1 s)
  then show ?case by simp
next
  case (2 s x)
  have "s \<notin> set y \<Longrightarrow> split_on s y = [y]" for y
    by (induction y) auto
  with 2 show ?case by simp
next
  case (3 s x y ys)
  have app: "s \<notin> set a \<Longrightarrow> split_on s (a @ s # b) = a # split_on s b" for a b
    by (induction a) auto
  from 3 show ?case by (simp add: app)
qed

lemma join_with_inj:
  assumes "join_with s xs = join_with s ys" "xs \<noteq> []" "ys \<noteq> []"
    "list_all (\<lambda>x. s \<notin> set x) xs" "list_all (\<lambda>x. s \<notin> set x) ys"
  shows "xs = ys"
proof -
  have "xs = split_on s (join_with s xs)"
    using assms(2,4) by (simp add: split_on_join)
  also have "\<dots> = split_on s (join_with s ys)"
    by (simp only: assms(1))
  also have "\<dots> = ys"
    using assms(3,5) by (simp add: split_on_join)
  finally show ?thesis .
qed

lemma zipdir_eq:
  "zipdir d t =
     map (\<lambda>(p, n). (join_with CHR ''/'' (drop (length d) p), case n of File c \<Rightarrow> c | Dir \<Rightarrow> Bytes []))
       (filter (\<lambda>(p, n). n \<noteq> Dir) (descendants t d))"
proof -
  have "concat (map (\<lambda>(p, n). case n of Dir \<Rightarrow> [] | File c \<Rightarrow> [(join_with CHR ''/'' (drop (length d) p), c)]) es) =
     map (\<lambda>(p, n). (join_with CHR ''/'' (drop (length d) p), case n of File c \<Rightarrow> c | Dir \<Rightarrow> Bytes []))
       (filter (\<lambda>(p, n). n \<noteq> Dir) es)" for es :: "(path \<times> node) list"
    by (induction es) (auto split: node.splits)
  then show ?thesis by (simp add: zipdir_def)
qed

lemma zipdir_lookup:
  assumes dist: "distinct (map fst t)"
    and names: "\<forall>(p, n) \<in> set t. strict_prefix d p \<longrightarrow> list_all (\<lambda>x. CHR ''/'' \<notin> set x) (drop (length d) p)"
    and entry: "(d @ rel, File c) \<in> set t" and rel: "rel \<noteq> []"
    and reach: "reachable t d (d @ rel)"
  shows "map_of (rev (zipdir d t)) (join_with CHR ''/'' rel) = Some c"
proof -
  let ?f = "\<lambda>(p, n). (join_with CHR ''/'' (drop (length d) p), case n of File c \<Rightarrow> c | Dir \<Rightarrow> Bytes [])"
  let ?es = "filter (\<lambda>(p, n). n \<noteq> Dir) (descendants t d)"
  have sub: "set ?es \<subseteq> {(p, n). (p, n) \<in> set t \<and> strict_prefix d p}"
    by (auto simp: descendants_def)
  have dt: "distinct t" using dist by (rule distinct_map [THEN iffD1, THEN conjunct1])
  have des: "distinct ?es" using dt by (simp add: descendants_def)
  have inj: "inj_on (fst \<circ> ?f) (set ?es)"
  proof (rule inj_onI)
    fix x y assume x: "x \<in> set ?es" and y: "y \<in> set ?es" and eq: "(fst \<circ> ?f) x = (fst \<circ> ?f) y"
    obtain p n where xp: "x = (p, n)" by (cases x)
    obtain q m where yq: "y = (q, m)" by (cases y)
    from x y sub xp yq have pt: "(p, n) \<in> set t" "strict_prefix d p" "(q, m) \<in> set t" "strict_prefix d q"
      by auto
    from pt obtain a b where ab: "p = d @ a" "a \<noteq> []" "q = d @ b" "b \<noteq> []"
      by (auto simp: strict_prefix_def prefix_def)
    from names pt ab have sl: "list_all (\<lambda>x. CHR ''/'' \<notin> set x) a" "list_all (\<lambda>x. CHR ''/'' \<notin> set x) b"
      by auto
    from eq xp yq ab have "join_with CHR ''/'' a = join_with CHR ''/'' b" by simp
    from join_with_inj [OF this ab(2) ab(4) sl] ab have "p = q" by simp
    with dist pt have "n = m" by (meson eq_key_imp_eq_value)
    with \<open>p = q\<close> xp yq show "x = y" by simp
  qed
  have dz: "distinct (map fst (zipdir d t))"
    unfolding zipdir_eq map_map using des inj by (simp add: distinct_map)
  have mem: "(d @ rel, File c) \<in> set ?es"
    using entry rel reach by (auto simp: descendants_def strict_prefix_def)
  have "?f (d @ rel, File c) \<in> ?f ` set ?es"
    using mem by (rule imageI)
  then have "(join_with CHR ''/'' rel, c) \<in> set (rev (zipdir d t))"
    by (simp add: zipdir_eq)
  moreover have "distinct (map fst (rev (zipdir d t)))" using dz by (simp add: rev_map [symmetric])
  ultimately show ?thesis by (rule map_of_is_SomeI [rotated])
qed

lemma emit_to_node:
  "emit_to msg h w = (r, w') \<Longrightarrow>
   node_at (files w') p = node_at (files w) p \<or>
   (\<exists>b b'. node_at (files w) p = Some (File (Bytes b)) \<and>
            node_at (files w') p = Some (File (Bytes b')))"
  by (auto simp: emit_to_def fill_def commit_def ret_def node_at_update
      split: option.splits node.splits content.splits if_splits)

lemma emit_loop_node:
  "for_each (emit_to msg) hs w = (r, w') \<Longrightarrow>
   node_at (files w') p = node_at (files w) p \<or>
   (\<exists>b b'. node_at (files w) p = Some (File (Bytes b)) \<and>
            node_at (files w') p = Some (File (Bytes b')))"
proof (induction hs arbitrary: w)
  case Nil
  then show ?case by (simp add: ret_def)
next
  case (Cons h hs)
  obtain r1 w1 where e: "emit_to msg h w = (r1, w1)" by (cases "emit_to msg h w")
  from Cons.prems e emit_to_frame [OF e] have "for_each (emit_to msg) hs w1 = (r, w')"
    by (simp add: seq_def)
  from Cons.IH [OF this] emit_to_node [OF e, of p] show ?case by auto
qed

lemma logger_log_node:
  "logger_log lvl msg w = (r, w') \<Longrightarrow>
   node_at (files w') p = node_at (files w) p \<or>
   (\<exists>b b'. node_at (files w) p = Some (File (Bytes b)) \<and>
            node_at (files w') p = Some (File (Bytes b')))"
  using emit_loop_node [of msg "handlers w" "w\<lparr>log := log w @ [(lvl, msg)]\<rparr>" r w' p]
  by (auto simp: logger_log_def ret_def split: if_splits)

lemma logger_log_archive:
  assumes "node_at (files w) p = Some (File (ZipArchive z))"
  shows "node_at (files (snd (logger_log lvl msg w))) p = Some (File (ZipArchive z))"
  using logger_log_node [of lvl msg w "fst (logger_log lvl msg w)" "snd (logger_log lvl msg w)" p]
    assms by auto

lemma backup_prepare_dst:
  assumes "backup_prepare d w0 = (Inr (ts, dst), w1)"
  shows "\<exists>nm. dst = d @ [nm]"
proof -
  have m: "mkdtemp pre d suf w = (Inr x, w') \<Longrightarrow> \<exists>nm. x = d @ [nm]" for pre suf w x w'
    by (auto simp: mkdtemp_def mktemp_node_def throw_def seq_def commit_def ret_def
        split: if_splits option.splits)
  from assms show ?thesis
    by (auto simp: backup_prepare_def seq_def ret_def
        split: prod.splits sum.splits dest!: m)
qed

lemma backup_package_archive:
  assumes "backup_package d ts dst cb w2 = (Inr r, w3)"
  shows "r = d @ [ts @ ''.zip''] \<and> \<not> isdir (files w2) r \<and>
         node_at (files w3) r =
           Some (File (ZipArchive (zipdir dst (AList.update r (File (Bytes [])) (files w2)))))"
proof -
  let ?r = "d @ [ts @ ''.zip'']"
  let ?t = "AList.update ?r (File (Bytes [])) (files w2)"
  let ?z = "zipdir dst ?t"
  obtain wa where zw: "zip_write ?r (zipdir dst) w2 = (Inr (), wa)"
    using assms by (auto simp: backup_package_def seq_def split: prod.splits sum.splits)
  then have nd: "\<not> isdir (files w2) ?r"
    and wa: "node_at (files wa) ?r = Some (File (ZipArchive ?z))"
    by (auto simp: zip_write_def throw_def seq_def commit_def node_at_update split: if_splits)
  let ?wb = "snd (logger_info (''Backup finished '' @ path_str ?r) wa)"
  have wb: "node_at (files ?wb) ?r = Some (File (ZipArchive ?z))"
    unfolding logger_info_def by (rule logger_log_archive [OF wa])
  have "r = ?r \<and> files w3 = files ?wb"
    using assms zw logger_log_ok [of INFO "''Backup finished '' @ path_str ?r" wa]
    by (auto simp: backup_package_def seq_def ret_def Popen_shell_def logger_info_def
        split: option.splits if_splits)
  with nd wb show ?thesis by simp
qed

lemma restore_prepare_archive:
  assumes "restore_prepare f v0 = (Inr z', v1)"
    and "node_at (files v0) f = Some (File (ZipArchive z))"
  shows "z' = z"
proof -
  let ?va = "snd (logger_info (''Restore started '' @ path_str f) v0)"
  have va: "node_at (files ?va) f = Some (File (ZipArchive z))"
    unfolding logger_info_def by (rule logger_log_archive [OF assms(2)])
  have cc: "check_call cmd w = (Inr u, w') \<Longrightarrow> files w' = files w" for cmd w u w'
    by (auto simp: check_call_def Let_def ret_def throw_def split: if_splits)
  from assms(1) logger_log_ok [of INFO "''Restore started '' @ path_str f" v0] va
  show ?thesis
    by (auto simp: restore_prepare_def seq_def logger_info_def zip_read_def ret_def throw_def
        split: prod.splits sum.splits option.splits node.splits content.splits dest!: cc)
qed

lemma set_alist_update: "set (AList.update k v al) \<subseteq> insert (k, v) (set al)"
  by (induct al) auto

lemma reachable_root:
  assumes "reachable t d (d @ rel)" and "rel \<noteq> []"
  shows "isdir t d"
proof -
  from assms(2) have "length d \<in> set [length d ..< length (d @ rel)]" by simp
  with assms(1) have "isdir t (take (length d) (d @ rel))"
    unfolding reachable_def list_all_iff by blast
  then show ?thesis by simp
qed

lemma reachable_cong:
  assumes same: "\<And>q. prefix d q \<Longrightarrow> node_at t' q = node_at t q"
    and "reachable t d (d @ rel)"
  shows "reachable t' d (d @ rel)"
proof -
  have "isdir t' (take k (d @ rel))" if "k \<in> set [length d ..< length (d @ rel)]" for k
  proof -
    from that assms(2) have "isdir t (take k (d @ rel))"
      unfolding reachable_def list_all_iff by blast
    moreover from that have "prefix d (take k (d @ rel))" by simp
    ultimately show ?thesis using same by (simp add: isdir_def)
  qed
  then show ?thesis unfolding reachable_def list_all_iff by blast
qed

lemma restore_step_runs:
  assumes "restore res z v2 = (Inr sub, v3)"
  shows "restore_step sk z res v2 =
         logger_info (''File restored: '' @ str_result sub @
                      '' ('' @ str_class (name res) @ '')'') v3"
proof -
  let ?msg = "''File restored: '' @ str_result sub @ '' ('' @ str_class (name res) @ '')''"
  from logger_log_ok [of INFO ?msg v3] obtain v4 where
    l: "logger_info ?msg v3 = (Inr (), v4)" by (auto simp: logger_info_def)
  have "seq (restore res z)
          (\<lambda>subresult. logger_info (''File restored: '' @ str_result subresult @
                                    '' ('' @ str_class (name res) @ '')'')) v2 = (Inr (), v4)"
    unfolding seq_def assms by (simp only: prod.case sum.case l)
  then show ?thesis
    unfolding restore_step_def guarded_def by (simp only: prod.case sum.case l)
qed


text \<open>
  C10. Let a backup run over any chain reach the end of its loop in a well-formed file
  system and let the packaging succeed. Then the run returns the path of the archive,
  and for every file that \<^verbatim>\<open>os.walk\<close> reaches below the staging directory at that
  moment, with bytes \<open>c\<close>, the archive \<open>z\<close> at that path gives exactly \<open>c\<close> under the
  relative name of the file. A restore run over any chain, in any world where that
  archive lies at that path, calls \<^verbatim>\<open>res.restore\<close> with this same \<open>z\<close> for every resource
  \<open>res\<close> of its loop; and when the steps before \<open>res\<close> have gone through and
  \<^verbatim>\<open>res.restore(z)\<close> returns, the run goes on from the world that this call left.
\<close>

theorem round_trip:
  assumes prep: "backup_prepare backup_dir w0 = (Inr (timestamp, backup_dst), w1)"
    and loop: "for_each (backup_step skip_errors backup_dst) chain w1 = (Inr (), w2)"
    and pack: "backup_package backup_dir timestamp backup_dst callback w2 = (Inr result, w3)"
    and wf: "wf_fs (files w2)"
    and staged: "node_at (files w2) (backup_dst @ rel) = Some (File c)"
    and rel: "rel \<noteq> []"
    and reach: "reachable (files w2) backup_dst (backup_dst @ rel)"
  shows "backup_run chain backup_dir callback skip_errors w0 = (Inr result, w3) \<and>
         (\<exists>z. node_at (files w3) result = Some (File (ZipArchive z)) \<and>
              zip_open z (join_with CHR ''/'' rel) = ret c \<and>
              (\<forall>v0 chain' without_nodes skip_errors'.
                  node_at (files v0) result = Some (File (ZipArchive z)) \<longrightarrow>
                  restore_run chain' result without_nodes skip_errors' v0 =
                    seq (restore_prepare result)
                      (\<lambda>z'. seq (for_each
                                (\<lambda>res. guarded skip_errors'
                                   (str_class (name res) @ '' restore error: '')
                                   (seq (restore res z)
                                      (\<lambda>subresult. logger_info
                                         (''File restored: '' @ str_result subresult @
                                          '' ('' @ str_class (name res) @ '')''))))
                                chain')
                              (\<lambda>u. restore_finish without_nodes)) v0) \<and>
              (\<forall>v0 z' v1 pre v2 res sub v3 rest without_nodes skip_errors'.
                  node_at (files v0) result = Some (File (ZipArchive z)) \<longrightarrow>
                  restore_prepare result v0 = (Inr z', v1) \<longrightarrow>
                  for_each (restore_step skip_errors' z') pre v1 = (Inr (), v2) \<longrightarrow>
                  restore res z v2 = (Inr sub, v3) \<longrightarrow>
                  z' = z \<and>
                  restore_run (pre @ res # rest) result without_nodes skip_errors' v0 =
                    seq (seq (logger_info (''File restored: '' @ str_result sub @
                                           '' ('' @ str_class (name res) @ '')''))
                           (\<lambda>u. for_each (restore_step skip_errors' z) rest))
                      (\<lambda>u. restore_finish without_nodes) v3))"
proof -
  let ?t = "files w2"
  let ?t' = "AList.update result (File (Bytes [])) ?t"
  let ?z = "zipdir backup_dst ?t'"
  from backup_package_archive [OF pack]
  have res: "result = backup_dir @ [timestamp @ ''.zip'']" and nd: "\<not> isdir ?t result"
    and arch: "node_at (files w3) result = Some (File (ZipArchive ?z))"
    by blast+
  from backup_prepare_dst [OF prep] obtain nm where dst: "backup_dst = backup_dir @ [nm]" ..
  have dd: "isdir ?t backup_dst"
    using reach rel by (rule reachable_root)
  have np: "\<not> prefix backup_dst result"
    using dd nd by (auto simp: dst res prefix_def)
  have run: "backup_run chain backup_dir callback skip_errors w0 = (Inr result, w3)"
    using prep loop pack by (simp add: backup_run_def seq_def)
  have other: "node_at ?t' p = node_at ?t p" if "prefix backup_dst p" for p
    using that np by (auto simp: node_at_update)
  have dist: "distinct (map fst ?t')"
    using wf by (simp add: wf_fs_def distinct_update)
  have names: "\<forall>(p, n) \<in> set ?t'. strict_prefix backup_dst p \<longrightarrow>
      list_all (\<lambda>x. CHR ''/'' \<notin> set x) (drop (length backup_dst) p)"
  proof (clarify)
    fix p n assume m: "(p, n) \<in> set ?t'" and sp: "strict_prefix backup_dst p"
    from sp np have "p \<noteq> result" by (auto simp: strict_prefix_def)
    moreover have "set ?t' \<subseteq> insert (result, File (Bytes [])) (set ?t)"
      by (rule set_alist_update)
    ultimately have "(p, n) \<in> set ?t"
      using m by auto
    with wf have "list_all (\<lambda>x. CHR ''/'' \<notin> set x) p"
      by (auto simp: wf_fs_def list_all_iff)
    then show "list_all (\<lambda>x. CHR ''/'' \<notin> set x) (drop (length backup_dst) p)"
      by (auto simp: list_all_iff dest: in_set_dropD)
  qed
  have entry: "(backup_dst @ rel, File c) \<in> set ?t'"
  proof -
    have "node_at ?t' (backup_dst @ rel) = Some (File c)"
      using staged other [of "backup_dst @ rel"] by simp
    then have "map_of ?t' (backup_dst @ rel) = Some (File c)"
      using rel by (simp add: node_at_def)
    then show ?thesis by (rule map_of_SomeD)
  qed
  have reach': "reachable ?t' backup_dst (backup_dst @ rel)"
    using other reach by (rule reachable_cong)
  have A: "zip_open ?z (join_with CHR ''/'' rel) = ret c"
    using zipdir_lookup [OF dist names entry rel reach'] by (simp add: zip_open_def)
  have body: "restore_step sk ?z =
      (\<lambda>res. guarded sk (str_class (name res) @ '' restore error: '')
         (seq (restore res ?z)
            (\<lambda>subresult. logger_info (''File restored: '' @ str_result subresult @
                                      '' ('' @ str_class (name res) @ '')''))))" for sk
    by (rule ext) (simp add: restore_step_def)
  have B: "restore_run chain' result without_nodes skip_errors' v0 =
      seq (restore_prepare result)
        (\<lambda>z'. seq (for_each (restore_step skip_errors' ?z) chain')
                (\<lambda>u. restore_finish without_nodes)) v0"
    if "node_at (files v0) result = Some (File (ZipArchive ?z))"
    for v0 chain' without_nodes skip_errors'
  proof (cases "restore_prepare result v0")
    case (Pair r v1)
    show ?thesis
    proof (cases r)
      case (Inl e)
      with Pair show ?thesis by (simp add: restore_run_def seq_def)
    next
      case (Inr z')
      from Pair Inr have "restore_prepare result v0 = (Inr z', v1)" by simp
      then have "z' = ?z" using that by (rule restore_prepare_archive)
      with Pair Inr show ?thesis by (simp add: restore_run_def seq_def)
    qed
  qed
  have C: "z' = ?z \<and>
      restore_run (pre @ res # rest) result without_nodes skip_errors' v0 =
        seq (seq (logger_info (''File restored: '' @ str_result sub @
                               '' ('' @ str_class (name res) @ '')''))
               (\<lambda>u. for_each (restore_step skip_errors' ?z) rest))
          (\<lambda>u. restore_finish without_nodes) v3"
    if a: "node_at (files v0) result = Some (File (ZipArchive ?z))"
      and p: "restore_prepare result v0 = (Inr z', v1)"
      and b: "for_each (restore_step skip_errors' z') pre v1 = (Inr (), v2)"
      and r: "restore res ?z v2 = (Inr sub, v3)"
    for v0 z' v1 pre v2 res sub v3 rest without_nodes skip_errors'
  proof -
    have z': "z' = ?z" using p a by (rule restore_prepare_archive)
    note st = restore_step_runs [OF r, of skip_errors']
    show ?thesis
      unfolding restore_run_step [OF p b, of res rest without_nodes]
      by (simp add: z' seq_def st)
  qed
  have B': "\<forall>v0 chain' without_nodes skip_errors'.
      node_at (files v0) result = Some (File (ZipArchive ?z)) \<longrightarrow>
      restore_run chain' result without_nodes skip_errors' v0 =
        seq (restore_prepare result)
          (\<lambda>z'. seq (for_each
                    (\<lambda>res. guarded skip_errors'
                       (str_class (name res) @ '' restore error: '')
                       (seq (restore res ?z)
                          (\<lambda>subresult. logger_info
                             (''File restored: '' @ str_result subresult @
                              '' ('' @ str_class (name res) @ '')''))))
                    chain')
                  (\<lambda>u. restore_finish without_nodes)) v0"
    unfolding body [symmetric] using B by blast
  have C': "\<forall>v0 z' v1 pre v2 res sub v3 rest without_nodes skip_errors'.
      node_at (files v0) result = Some (File (ZipArchive ?z)) \<longrightarrow>
      restore_prepare result v0 = (Inr z', v1) \<longrightarrow>
      for_each (restore_step skip_errors' z') pre v1 = (Inr (), v2) \<longrightarrow>
      restore res ?z v2 = (Inr sub, v3) \<longrightarrow>
      z' = ?z \<and>
      restore_run (pre @ res # rest) result without_nodes skip_errors' v0 =
        seq (seq (logger_info (''File restored: '' @ str_result sub @
                               '' ('' @ str_class (name res) @ '')''))
               (\<lambda>u. for_each (restore_step skip_errors' ?z) rest))
          (\<lambda>u. restore_finish without_nodes) v3"
    using C by blast
  show ?thesis
  proof (intro conjI exI [of _ ?z])
    show "backup_run chain backup_dir callback skip_errors w0 = (Inr result, w3)"
      by (rule run)
    show "node_at (files w3) result = Some (File (ZipArchive ?z))"
      by (rule arch)
    show "zip_open ?z (join_with CHR ''/'' rel) = ret c"
      by (rule A)
  qed (rule B', rule C')
qed

theorem round_trip_witness:
  "fst (backup_prepare [''b''] (world_of sys_ok tokens_fs)) = Inr (''T'', [''b'', ''Ta'']) \<and>
   fst (backup_run [KubeTokenResource] [''b''] None False (world_of sys_ok tokens_fs)) =
     Inr [''b'', ''T.zip''] \<and>
   (\<exists>z. node_at (files (snd (backup_run [KubeTokenResource] [''b''] None False
                                (world_of sys_ok tokens_fs)))) [''b'', ''T.zip'']
          = Some (File (ZipArchive z)) \<and>
        zip_open z ''known_tokens.csv'' = ret (Bytes ''K'') \<and>
        restore_run [KubeTokenResource] [''b'', ''T.zip''] False False
            (snd (fill KNOWN_TOKENS (Bytes ''X'')
               (snd (backup_run [KubeTokenResource] [''b''] None False
                      (world_of sys_ok tokens_fs))))) =
          seq (restore_prepare [''b'', ''T.zip''])
            (\<lambda>z'. seq (for_each
                      (\<lambda>res. guarded False (str_class (name res) @ '' restore error: '')
                         (seq (restore res z)
                            (\<lambda>subresult. logger_info
                               (''File restored: '' @ str_result subresult @
                                '' ('' @ str_class (name res) @ '')''))))
                      [KubeTokenResource])
                    (\<lambda>u. restore_finish False))
            (snd (fill KNOWN_TOKENS (Bytes ''X'')
               (snd (backup_run [KubeTokenResource] [''b''] None False
                      (world_of sys_ok tokens_fs)))))) \<and>
   node_at (files (snd (fill KNOWN_TOKENS (Bytes ''X'')
               (snd (backup_run [KubeTokenResource] [''b''] None False
                      (world_of sys_ok tokens_fs)))))) KNOWN_TOKENS = Some (File (Bytes ''X'')) \<and>
   fst (restore_run [KubeTokenResource] [''b'', ''T.zip''] False False
            (snd (fill KNOWN_TOKENS (Bytes ''X'')
               (snd (backup_run [KubeTokenResource] [''b''] None False
                      (world_of sys_ok tokens_fs)))))) = Inr () \<and>
   node_at (files (snd (restore_run [KubeTokenResource] [''b'', ''T.zip''] False False
            (snd (fill KNOWN_TOKENS (Bytes ''X'')
               (snd (backup_run [KubeTokenResource] [''b''] None False
                      (world_of sys_ok tokens_fs)))))))) KNOWN_TOKENS = Some (File (Bytes ''K''))"
proof -
  let ?W = "world_of sys_ok tokens_fs"
  let ?dst = "[''b'', ''Ta'']"
  let ?A = "snd (backup_prepare [''b''] ?W)"
  let ?B = "snd (for_each (backup_step False ?dst) [KubeTokenResource] ?A)"
  let ?C = "snd (backup_package [''b''] ''T'' ?dst None ?B)"
  let ?V = "snd (fill KNOWN_TOKENS (Bytes ''X'') ?C)"
  note defs = world_defs tokens_fs_def io_defs path_defs os_defs const_defs log_defs run_defs
    res_defs Let_def
  have p: "fst (backup_prepare [''b''] ?W) = Inr (''T'', ?dst)"
    by (simp add: defs)
  have l: "fst (for_each (backup_step False ?dst) [KubeTokenResource] ?A) = Inr ()"
    by (simp add: defs)
  have k: "fst (backup_package [''b''] ''T'' ?dst None ?B) = Inr [''b'', ''T.zip'']"
    by (simp add: defs)
  have w: "wf_fs (files ?B)"
    by (simp add: defs wf_fs_def)
  have s: "node_at (files ?B) (?dst @ [''known_tokens.csv'']) = Some (File (Bytes ''K''))"
    by (simp add: defs)
  have r: "reachable (files ?B) ?dst (?dst @ [''known_tokens.csv''])"
    by (simp add: defs)
  have x: "node_at (files ?V) KNOWN_TOKENS = Some (File (Bytes ''X''))"
    by (simp add: fill_def commit_def node_at_update KNOWN_TOKENS_def)
  have keep: "node_at (files ?V) [''b'', ''T.zip''] = node_at (files ?C) [''b'', ''T.zip'']"
    by (simp add: fill_def commit_def node_at_update KNOWN_TOKENS_def)
  have rt: "fst (restore_run [KubeTokenResource] [''b'', ''T.zip''] False False ?V) = Inr ()"
    "node_at (files (snd (restore_run [KubeTokenResource] [''b'', ''T.zip''] False False ?V)))
       KNOWN_TOKENS = Some (File (Bytes ''K''))"
    by (simp_all add: defs)
  from round_trip [OF io_result [OF p] io_result [OF l] io_result [OF k] w s _ r]
  have run: "backup_run [KubeTokenResource] [''b''] None False ?W = (Inr [''b'', ''T.zip''], ?C)"
    and ex: "\<exists>z. node_at (files ?C) [''b'', ''T.zip''] = Some (File (ZipArchive z)) \<and>
              zip_open z (join_with CHR ''/'' [''known_tokens.csv'']) = ret (Bytes ''K'') \<and>
              (\<forall>v0 chain' without_nodes skip_errors'.
                  node_at (files v0) [''b'', ''T.zip''] = Some (File (ZipArchive z)) \<longrightarrow>
                  restore_run chain' [''b'', ''T.zip''] without_nodes skip_errors' v0 =
                    seq (restore_prepare [''b'', ''T.zip''])
                      (\<lambda>z'. seq (for_each
                                (\<lambda>res. guarded skip_errors'
                                   (str_class (name res) @ '' restore error: '')
                                   (seq (restore res z)
                                      (\<lambda>subresult. logger_info
                                         (''File restored: '' @ str_result subresult @
                                          '' ('' @ str_class (name res) @ '')''))))
                                chain')
                              (\<lambda>u. restore_finish without_nodes)) v0)"
    by blast+
  from ex obtain z where z: "node_at (files ?C) [''b'', ''T.zip''] = Some (File (ZipArchive z))"
    and o: "zip_open z (join_with CHR ''/'' [''known_tokens.csv'']) = ret (Bytes ''K'')"
    and a: "\<And>v0 chain' without_nodes skip_errors'.
              node_at (files v0) [''b'', ''T.zip''] = Some (File (ZipArchive z)) \<Longrightarrow>
              restore_run chain' [''b'', ''T.zip''] without_nodes skip_errors' v0 =
                seq (restore_prepare [''b'', ''T.zip''])
                  (\<lambda>z'. seq (for_each
                            (\<lambda>res. guarded skip_errors'
                               (str_class (name res) @ '' restore error: '')
                               (seq (restore res z)
                                  (\<lambda>subresult. logger_info
                                     (''File restored: '' @ str_result subresult @
                                      '' ('' @ str_class (name res) @ '')''))))
                            chain')
                          (\<lambda>u. restore_finish without_nodes)) v0"
    by blast
  have zv: "node_at (files ?V) [''b'', ''T.zip''] = Some (File (ZipArchive z))"
    using keep z by simp
  have o': "zip_open z ''known_tokens.csv'' = ret (Bytes ''K'')"
    using o by simp
  have c: "snd (backup_run [KubeTokenResource] [''b''] None False ?W) = ?C"
    using run by simp
  note inst = a [OF zv, of "[KubeTokenResource]" False False]
  show ?thesis
    unfolding c
    apply (intro conjI)
         apply (rule p)
        apply (simp add: run)
       apply (rule exI [of _ z])
       apply (intro conjI)
         apply (rule z)
        apply (rule o')
       apply (rule inst)
      apply (rule x)
     apply (rule rt(1))
    apply (rule rt(2))
    done
qed

end
